theory Spec2Isabelle
  imports Complex_Main "HOL-Library.Word"
begin

section \<open>Exceptions\<close>

text \<open>
  The Python exceptions that the modelled code can meet. A call that may raise returns
  \<open>exn + 'a\<close>, with \<open>Inl\<close> for the raised exception, or a pair of \<open>exn option\<close> and the state
  it leaves. All of them but \<open>SystemExit\<close> are subclasses of \<open>Exception\<close>: an
  \<open>except Exception\<close> clause catches those and lets \<open>SystemExit\<close>, which stands for the
  exceptions derived from \<open>BaseException\<close> only, pass; a bare \<open>except\<close> clause catches all.
\<close>

datatype exn =
  OSError | ValueError | ZeroDivisionError | OverflowError | PiCameraError | SystemExit

definition is_Exception :: "exn \<Rightarrow> bool" where
  "is_Exception e = (e \<noteq> SystemExit)"

type_synonym bytes = "8 word list"

section \<open>datetime and timedelta\<close>

text \<open>
  A \<open>timedelta\<close> is a number of microseconds. A \<open>datetime\<close> is the wall-clock reading in
  microseconds since \<open>datetime.min\<close> (0001-01-01 00:00:00) together with the UTC offset of its
  \<open>tzinfo\<close>. Python adds a timedelta to the wall-clock reading and keeps the tzinfo; it
  compares timezone-aware datetimes by their UTC instants.
\<close>

type_synonym timedelta = int

record datetime =
  wall :: int
  utcoffset :: int

definition dt_max :: int where
  "dt_max = 315537897599999999"

definition total_seconds :: "timedelta \<Rightarrow> rat" where
  "total_seconds td = of_int td / 1000000"

definition td_seconds :: "timedelta \<Rightarrow> int" where
  \<comment> \<open>the \<open>.seconds\<close> attribute: the seconds within the day\<close>
  "td_seconds td = (td div 1000000) mod 86400"

definition microsecond :: "datetime \<Rightarrow> int" where
  "microsecond dt = wall dt mod 1000000"

definition timedelta :: "int \<Rightarrow> rat \<Rightarrow> int \<Rightarrow> timedelta" where
  \<comment> \<open>\<open>timedelta(days, seconds, microseconds)\<close> with a fractional number of seconds\<close>
  "timedelta days secs micros = days * 86400000000 + round (secs * 1000000) + micros"

definition dt_add :: "datetime \<Rightarrow> timedelta \<Rightarrow> exn + datetime" where
  "dt_add dt td =
     (let w = wall dt + td
      in if 0 \<le> w \<and> w \<le> dt_max then Inr (dt\<lparr>wall := w\<rparr>) else Inl OverflowError)"

definition instant :: "datetime \<Rightarrow> int" where
  "instant dt = wall dt - utcoffset dt"

definition dt_sub :: "datetime \<Rightarrow> datetime \<Rightarrow> timedelta" where
  "dt_sub a b = instant a - instant b"

definition dt_less :: "datetime \<Rightarrow> datetime \<Rightarrow> bool" where
  "dt_less a b = (instant a < instant b)"

section \<open>Timelapse: flooring the next capture instant\<close>

text \<open>
  \<open>Timelapse.__floorTime(dt, delta)\<close>. \<open>delta.total_seconds()\<close> is a float in the source; the
  model computes with exact rationals, which is what the floats give when the interval is a
  whole number of seconds or a dyadic fraction of one (all intermediate values are then
  exactly representable). Float floor division by zero raises.
\<close>

definition floorTime :: "datetime \<Rightarrow> timedelta \<Rightarrow> exn + datetime" where
  "floorTime dt delta =
     (let roundTo = total_seconds delta;
          seconds = td_seconds (wall dt)
      in if roundTo = 0 then Inl ZeroDivisionError
         else
           let rounding = of_int \<lfloor>of_int seconds / roundTo\<rfloor> * roundTo
           in dt_add dt (timedelta 0 (rounding - of_int seconds) (- microsecond dt)))"

text \<open>
  The first two lines of \<open>Timelapse.__wait_until_next_capture\<close>:
  \<open>next_instant = self.__floorTime(now + self.interval, self.interval)\<close> and
  \<open>delay = max(0, (next_instant - now).total_seconds())\<close>.
\<close>

definition next_instant :: "datetime \<Rightarrow> timedelta \<Rightarrow> exn + datetime" where
  "next_instant now interval =
     (case dt_add now interval of
        Inl e \<Rightarrow> Inl e
      | Inr n \<Rightarrow> floorTime n interval)"

definition delay_until :: "datetime \<Rightarrow> datetime \<Rightarrow> rat" where
  "delay_until now nxt = max 0 (total_seconds (dt_sub nxt now))"

definition day_start :: "int \<Rightarrow> int" where
  \<comment> \<open>midnight of the day of a wall-clock reading: the boundary the flooring counts from\<close>
  "day_start w = w - w mod 86400000000"

section \<open>The interruptible timer\<close>

text \<open>
  \<open>class Timer\<close> holds an unbounded \<open>queue.Queue\<close> into which \<open>interrupt\<close> puts \<open>None\<close>. All
  queued items are equal, so the queue is the number of items in it. \<open>sleep\<close> is
  \<open>self.q.get(timeout=seconds)\<close>: a negative timeout raises \<open>ValueError\<close>; a queued item is
  taken at once; on an empty queue a timeout above \<open>threading.TIMEOUT_MAX\<close> raises
  \<open>OverflowError\<close> when the wait begins, and otherwise the call blocks for the whole timeout
  and the \<open>queue.Empty\<close> it ends with is caught. Neither \<open>ValueError\<close> nor \<open>OverflowError\<close>
  is caught by \<open>except queue.Empty\<close>. The model covers calls that do not overlap in time;
  \<open>Timer_sleep\<close> returns the time the caller was blocked and the timer afterwards.
\<close>

record Timer =
  q :: nat

definition Timer_init :: Timer where
  "Timer_init = \<lparr>q = 0\<rparr>"

definition TIMEOUT_MAX :: rat where
  "TIMEOUT_MAX = 9223372036"

definition Timer_sleep :: "Timer \<Rightarrow> rat \<Rightarrow> exn + rat \<times> Timer" where
  "Timer_sleep tm seconds =
     (if seconds < 0 then Inl ValueError
      else if 0 < q tm then Inr (0, tm\<lparr>q := q tm - 1\<rparr>)
      else if TIMEOUT_MAX < seconds then Inl OverflowError
      else Inr (seconds, tm))"

definition Timer_interrupt :: "Timer \<Rightarrow> Timer" where
  "Timer_interrupt tm = tm\<lparr>q := q tm + 1\<rparr>"

datatype timer_call = Interrupt | Sleep rat

text \<open>A sequence of calls on one timer; the result lists the blocked time of every sleep.\<close>

fun timer_calls :: "Timer \<Rightarrow> timer_call list \<Rightarrow> exn + rat list \<times> Timer" where
  "timer_calls tm [] = Inr ([], tm)"
| "timer_calls tm (Interrupt # cs) = timer_calls (Timer_interrupt tm) cs"
| "timer_calls tm (Sleep d # cs) =
     (case Timer_sleep tm d of
        Inl e \<Rightarrow> Inl e
      | Inr (blocked, tm') \<Rightarrow>
          (case timer_calls tm' cs of
             Inl e \<Rightarrow> Inl e
           | Inr (bs, tm'') \<Rightarrow> Inr (blocked # bs, tm'')))"

section \<open>External collaborators\<close>

text \<open>
  The library functions the scheduler calls are parameters of the model: \<open>strftime\<close> of the
  datetime library, \<open>dawn\<close> and \<open>dusk\<close> of the solar position calculator (called with
  \<open>date=time, local=True\<close>) and the hex digest of \<open>hashlib.md5\<close>. They are taken to be pure
  functions that return normally.
\<close>

record extern =
  strftime :: "datetime \<Rightarrow> string \<Rightarrow> string"
  dawn :: "datetime \<Rightarrow> datetime"
  dusk :: "datetime \<Rightarrow> datetime"
  md5_hexdigest :: "bytes \<Rightarrow> string"

section \<open>Night classification\<close>

definition is_night :: "extern \<Rightarrow> datetime \<Rightarrow> bool" where
  "is_night ext time = (dt_less time (dawn ext time) \<or> dt_less (dusk ext time) time)"

section \<open>File names\<close>

definition sep :: string where
  "sep = ''/''"

definition DATESTR_FORMAT :: string where
  "DATESTR_FORMAT = ''%Y%m%d''"

definition DATETIMESTR_FORMAT :: string where
  "DATETIMESTR_FORMAT = ''%Y%m%d_%H%M%S''"

definition SUBDIR_TEMPLATE :: "string \<Rightarrow> string \<Rightarrow> string" where
  \<comment> \<open>\<open>'%(datestr)s' + os.sep + '%(night)s'\<close>\<close>
  "SUBDIR_TEMPLATE datestr night = datestr @ sep @ night"

definition FILE_NAME_TEMPLATE :: "string \<Rightarrow> string \<Rightarrow> string \<Rightarrow> string" where
  \<comment> \<open>\<open>'img_%(datetimestr)s_md5-%(md5sum)s%(suffix)s.jpg'\<close>\<close>
  "FILE_NAME_TEMPLATE datetimestr md5sum suffix =
     ''img_'' @ datetimestr @ ''_md5-'' @ md5sum @ suffix @ ''.jpg''"

text \<open>\<open>'%d' % n\<close> for a natural number: its decimal digits.\<close>

definition digit :: "nat \<Rightarrow> char" where
  "digit n = ''0123456789'' ! n"

fun str_nat :: "nat \<Rightarrow> string" where
  "str_nat n = (if n < 10 then [digit n] else str_nat (n div 10) @ [digit (n mod 10)])"

declare str_nat.simps [simp del]

text \<open>\<open>os.path.join\<close> of \<open>posixpath\<close>, one step and for three components.\<close>

definition join2 :: "string \<Rightarrow> string \<Rightarrow> string" where
  "join2 path b =
     (if take 1 b = sep then b
      else if path = [] \<or> last path = CHR ''/'' then path @ b
      else path @ sep @ b)"

definition path_join :: "string \<Rightarrow> string \<Rightarrow> string \<Rightarrow> string" where
  "path_join a b c = join2 (join2 a b) c"

text \<open>
  The file system is the list of the files that exist, each with its content;
  \<open>os.path.exists\<close> looks a path up in it. Directories are not tracked.
\<close>

type_synonym filesystem = "(string \<times> bytes) list"

definition path_exists :: "filesystem \<Rightarrow> string \<Rightarrow> bool" where
  "path_exists fs p = (p \<in> fst ` set fs)"

text \<open>
  The \<open>while\<close> loop of \<open>Timelapse.generate_filename\<close> over its three variables
  \<open>suffix_int\<close>, \<open>suffix_str\<close> and \<open>filename\<close>. \<open>filename\<close> is unbound before the first
  iteration and is not read then, since \<open>suffix_int == 0\<close> decides the test.
\<close>

function generate_loop ::
  "filesystem \<Rightarrow> string \<Rightarrow> string \<Rightarrow> string \<Rightarrow> string \<Rightarrow> nat \<times> string \<times> string \<Rightarrow> string" where
  "generate_loop fs root_folder subdir datetime_str md5sum (suffix_int, suffix_str, filename) =
     (if suffix_int = 0 \<or> path_exists fs filename then
        generate_loop fs root_folder subdir datetime_str md5sum
          (suffix_int + 1, ''_'' @ str_nat (suffix_int + 1),
           path_join root_folder subdir (FILE_NAME_TEMPLATE datetime_str md5sum suffix_str))
      else filename)"
  by pat_completeness auto

definition generate_filename :: "extern \<Rightarrow> filesystem \<Rightarrow> string \<Rightarrow> datetime \<Rightarrow> string \<Rightarrow> string" where
  "generate_filename ext fs root_folder time md5sum =
     (let date_str = strftime ext time DATESTR_FORMAT;
          datetime_str = strftime ext time DATETIMESTR_FORMAT;
          night_str = (if is_night ext time then ''night'' else '''');
          subdir = SUBDIR_TEMPLATE date_str night_str
      in generate_loop fs root_folder subdir datetime_str md5sum (0, '''', ''''))"

text \<open>
  The candidate paths in the order the loop tries them: no suffix first, then \<open>_1\<close>, \<open>_2\<close>, ...
\<close>

definition suffix_of :: "nat \<Rightarrow> string" where
  "suffix_of k = (if k = 0 then '''' else ''_'' @ str_nat k)"

definition candidate :: "extern \<Rightarrow> string \<Rightarrow> datetime \<Rightarrow> string \<Rightarrow> nat \<Rightarrow> string" where
  "candidate ext root_folder time md5sum k =
     path_join root_folder
       (SUBDIR_TEMPLATE (strftime ext time DATESTR_FORMAT)
          (if is_night ext time then ''night'' else ''''))
       (FILE_NAME_TEMPLATE (strftime ext time DATETIMESTR_FORMAT) md5sum (suffix_of k))"

section \<open>The downstream mover: the digest from the basename\<close>

definition basename :: "string \<Rightarrow> string" where
  "basename p = rev (takeWhile (\<lambda>c. c \<noteq> CHR ''/'') (rev p))"

definition is_hex :: "char \<Rightarrow> bool" where
  "is_hex c = (c \<in> set ''0123456789ABCDEFabcdef'')"

text \<open>
  \<open>MD5SUM_REGEX = re.compile(r"_md5-(?P<md5sum>[0-9A-Fa-f]32)[_\.]")\<close>: the literal \<open>_md5-\<close>,
  then the group \<open>md5sum\<close>, which is one hexadecimal digit followed by the literal \<open>32\<close>,
  then \<open>_\<close> or a dot. \<open>MD5SUM_REGEX_match\<close> matches at the start of its argument and
  \<open>MD5SUM_REGEX_search\<close> finds the leftmost match; both return the three characters of the
  group.
\<close>

definition MD5SUM_REGEX_match :: "string \<Rightarrow> string option" where
  "MD5SUM_REGEX_match s =
     (if take 5 s = ''_md5-'' then
        (case drop 5 s of
           h # a # b # e # _ \<Rightarrow>
             if is_hex h \<and> a = CHR ''3'' \<and> b = CHR ''2'' \<and> (e = CHR ''_'' \<or> e = CHR ''.'')
             then Some [h, a, b] else None
         | _ \<Rightarrow> None)
      else None)"

fun MD5SUM_REGEX_search :: "string \<Rightarrow> string option" where
  "MD5SUM_REGEX_search [] = None"
| "MD5SUM_REGEX_search (c # cs) =
     (case MD5SUM_REGEX_match (c # cs) of
        Some g \<Rightarrow> Some g
      | None \<Rightarrow> MD5SUM_REGEX_search cs)"

text \<open>
  \<open>get_md5sum(path, try_from_basename)\<close> of the mover. The result carries the list of the
  files that were opened for reading; opening a file that does not exist raises.
\<close>

definition md5_of_file :: "extern \<Rightarrow> filesystem \<Rightarrow> string \<Rightarrow> exn + string \<times> string list" where
  "md5_of_file ext fs path =
     (case map_of fs path of
        None \<Rightarrow> Inl OSError
      | Some content \<Rightarrow> Inr (md5_hexdigest ext content, [path]))"

definition get_md5sum :: "extern \<Rightarrow> filesystem \<Rightarrow> string \<Rightarrow> bool \<Rightarrow> exn + string \<times> string list" where
  "get_md5sum ext fs path try_from_basename =
     (if try_from_basename then
        (case MD5SUM_REGEX_search (basename path) of
           Some md5sum \<Rightarrow> if md5sum \<noteq> [] then Inr (md5sum, []) else md5_of_file ext fs path
         | None \<Rightarrow> md5_of_file ext fs path)
      else md5_of_file ext fs path)"

text \<open>
  The number of suffixed candidates beyond \<open>_n\<close> that exist: what the loop can still find
  taken.
\<close>

definition candidates_left ::
  "filesystem \<Rightarrow> string \<Rightarrow> string \<Rightarrow> string \<Rightarrow> string \<Rightarrow> nat \<Rightarrow> nat" where
  "candidates_left fs root_folder subdir datetime_str md5sum n =
     card {k. n < k \<and>
              path_exists fs (path_join root_folder subdir
                (FILE_NAME_TEMPLATE datetime_str md5sum (''_'' @ str_nat k)))}"

definition loop_measure ::
  "filesystem \<times> string \<times> string \<times> string \<times> string \<times> nat \<times> string \<times> string \<Rightarrow> nat" where
  "loop_measure =
     (\<lambda>(fs, root_folder, subdir, datetime_str, md5sum, suffix_int, suffix_str, filename).
        2 * candidates_left fs root_folder subdir datetime_str md5sum suffix_int
        + (if path_exists fs (path_join root_folder subdir
                (FILE_NAME_TEMPLATE datetime_str md5sum suffix_str)) then 2 else 0)
        + (if suffix_int = 0 \<or> path_exists fs filename then 1 else 0))"

section \<open>Sample data\<close>

text \<open>
  The configuration constants of the source, and a sample of the external collaborators
  for the examples: a clock that reads 2020-01-01 12:00:00, dawn at 07:20 and dusk at
  15:40 of that day, and a digest function with the MD5 digests of the empty input and of
  the one-byte input \<open>a\<close>.
\<close>

definition TIMELAPSE_INTERVAL :: timedelta where
  "TIMELAPSE_INTERVAL = 60000000"

definition TIMELAPSE_FOLDERS :: "string list" where
  "TIMELAPSE_FOLDERS = [''/mnt/usb/timelapse/'']"

definition TIMELAPSE_FOLDERS_FALLBACK :: "string list" where
  "TIMELAPSE_FOLDERS_FALLBACK = [''/mnt/sdcard/timelapse/'']"

definition sample_noon :: datetime where
  "sample_noon = \<lparr>wall = 63713476800000000, utcoffset = 3600000000\<rparr>"

definition sample_extern :: extern where
  "sample_extern =
     \<lparr>strftime = (\<lambda>t f. if f = ''%Y%m%d'' then ''20200101'' else ''20200101_120000''),
      dawn = (\<lambda>t. \<lparr>wall = 63713460000000000, utcoffset = 3600000000\<rparr>),
      dusk = (\<lambda>t. \<lparr>wall = 63713490000000000, utcoffset = 3600000000\<rparr>),
      md5_hexdigest = (\<lambda>b. if b = [] then ''d41d8cd98f00b204e9800998ecf8427e''
                           else ''0cc175b9c0f1b6a831c399e269772661'')\<rparr>"

section \<open>Timelapse: writing a capture and the run loop\<close>

text \<open>
  A Python set of folders is a list without duplicates: \<open>add\<close> is \<open>List.insert\<close>,
  \<open>discard\<close> is \<open>removeAll\<close>, and the order of the list stands for the order in which the set
  is iterated.
\<close>

record Timelapse =
  interval :: timedelta
  root_folders :: "string list"
  fallback_folders :: "string list"

definition add_root_folder :: "Timelapse \<Rightarrow> string \<Rightarrow> Timelapse" where
  "add_root_folder self folder = self\<lparr>root_folders := List.insert folder (root_folders self)\<rparr>"

definition remove_root_folder :: "Timelapse \<Rightarrow> string \<Rightarrow> Timelapse" where
  "remove_root_folder self folder = self\<lparr>root_folders := removeAll folder (root_folders self)\<rparr>"

definition add_fallback_root_folder :: "Timelapse \<Rightarrow> string \<Rightarrow> Timelapse" where
  "add_fallback_root_folder self folder =
     self\<lparr>fallback_folders := List.insert folder (fallback_folders self)\<rparr>"

definition remove_fallback_root_folder :: "Timelapse \<Rightarrow> string \<Rightarrow> Timelapse" where
  "remove_fallback_root_folder self folder =
     self\<lparr>fallback_folders := removeAll folder (fallback_folders self)\<rparr>"

text \<open>
  What the scheduler's thread changes: the files, the log and its timer. A write below a
  root folder can fail at \<open>os.makedirs\<close>, at \<open>open\<close> or at \<open>f.write\<close>; which of them raises
  for which root folder is given by the environment of the tick. A failing \<open>f.write\<close>
  leaves the file that \<open>open\<close> created, with the part of the content that reached it.
\<close>

datatype io_fault = MakedirsFails | OpenFails | WriteFails bytes

datatype log_entry = LogWrote string | LogError string | LogSleeping rat datetime

record state =
  files :: filesystem
  logged :: "log_entry list"
  timer :: Timer

text \<open>
  The body of the \<open>for\<close> loop of \<open>Timelapse._write_to_file\<close> for one root folder. Nothing
  before the assignment to \<open>filename\<close> raises (the digest of an in-memory stream and the
  external collaborators return normally), so the handler's log call finds it bound. The
  bare \<open>except\<close> clause catches every exception of the three calls that follow.
\<close>

definition write_one :: "extern \<Rightarrow> (string \<Rightarrow> io_fault option) \<Rightarrow> bytes \<Rightarrow> datetime \<Rightarrow>
    string \<Rightarrow> bool \<times> state \<Rightarrow> bool \<times> state" where
  "write_one ext fault input time root_folder acc =
     (let success = fst acc; st = snd acc;
          md5sum = md5_hexdigest ext input;
          filename = generate_filename ext (files st) root_folder time md5sum
      in case fault root_folder of
           None \<Rightarrow>
             (success, st\<lparr>files := (filename, input) # files st,
                          logged := logged st @ [LogWrote filename]\<rparr>)
         | Some MakedirsFails \<Rightarrow> (False, st\<lparr>logged := logged st @ [LogError filename]\<rparr>)
         | Some OpenFails \<Rightarrow> (False, st\<lparr>logged := logged st @ [LogError filename]\<rparr>)
         | Some (WriteFails partial) \<Rightarrow>
             (False, st\<lparr>files := (filename, partial) # files st,
                        logged := logged st @ [LogError filename]\<rparr>))"

fun write_loop :: "extern \<Rightarrow> (string \<Rightarrow> io_fault option) \<Rightarrow> bytes \<Rightarrow> datetime \<Rightarrow>
    string list \<Rightarrow> bool \<times> state \<Rightarrow> bool \<times> state" where
  "write_loop ext fault input time [] acc = acc"
| "write_loop ext fault input time (root_folder # rest) acc =
     write_loop ext fault input time rest (write_one ext fault input time root_folder acc)"

definition write_to_file :: "extern \<Rightarrow> (string \<Rightarrow> io_fault option) \<Rightarrow> bytes \<Rightarrow>
    string list \<Rightarrow> datetime \<Rightarrow> state \<Rightarrow> bool \<times> state" where
  "write_to_file ext fault input folders time st =
     write_loop ext fault input time (remdups folders) (True, st)"

text \<open>
  The loop \<open>for fallback_folder in self.fallback_folders\<close> of \<open>Timelapse.__run\<close>: every
  iteration that finds \<open>success\<close> false writes to all the fallback folders.
\<close>

fun fallback_loop :: "extern \<Rightarrow> (string \<Rightarrow> io_fault option) \<Rightarrow> bytes \<Rightarrow> string list \<Rightarrow>
    datetime \<Rightarrow> string list \<Rightarrow> bool \<times> state \<Rightarrow> bool \<times> state" where
  "fallback_loop ext fault input fallback time [] acc = acc"
| "fallback_loop ext fault input fallback time (fallback_folder # rest) acc =
     (if fst acc then acc
      else fallback_loop ext fault input fallback time rest
             (write_to_file ext fault input fallback time (snd acc)))"

text \<open>
  \<open>Timelapse.__wait_until_next_capture\<close>, with the value of \<open>self._now()\<close> as an argument.
  An exception of the date arithmetic leaves the method.
\<close>

definition wait_until_next_capture :: "Timelapse \<Rightarrow> datetime \<Rightarrow> state \<Rightarrow> exn option \<times> state" where
  "wait_until_next_capture self time st =
     (case next_instant time (interval self) of
        Inl e \<Rightarrow> (Some e, st)
      | Inr nxt \<Rightarrow>
          (let delay = delay_until time nxt;
               st1 = st\<lparr>logged := logged st @ [LogSleeping delay nxt]\<rparr>
           in case Timer_sleep (timer st1) delay of
                Inl e \<Rightarrow> (Some e, st1)
              | Inr (blocked, tm) \<Rightarrow> (None, st1\<lparr>timer := tm\<rparr>)))"

text \<open>
  What one iteration of the \<open>while\<close> loop of \<open>Timelapse.__run\<close> meets: the two readings of the
  clock, the outcome of \<open>camera.capture\<close> and the faults of the storage.
\<close>

record tick_env =
  t_now :: datetime
  t_capture :: "exn + bytes"
  t_fault :: "string \<Rightarrow> io_fault option"
  t_wait_now :: datetime

text \<open>
  The body of the \<open>while\<close> loop. \<open>camera.capture\<close> is not inside a \<open>try\<close>: its exception
  leaves \<open>__run\<close>. The reads of the camera's attributes for the debug log are taken to
  return normally. The result is the exception that left the body, if any, and the state.
\<close>

definition tick :: "extern \<Rightarrow> Timelapse \<Rightarrow> tick_env \<Rightarrow> state \<Rightarrow> exn option \<times> state" where
  "tick ext self env st =
     (case t_capture env of
        Inl e \<Rightarrow> (Some e, st)
      | Inr mem_stream \<Rightarrow>
          (let r = write_to_file ext (t_fault env) mem_stream (root_folders self) (t_now env) st;
               r' = fallback_loop ext (t_fault env) mem_stream (fallback_folders self) (t_now env)
                      (fallback_folders self) r
           in wait_until_next_capture self (t_wait_now env) (snd r')))"

text \<open>
  \<open>while self.keep_running\<close>: one environment for every iteration that finds the flag set;
  at the end of the list the flag is found cleared and \<open>__run\<close> returns. An exception ends
  the loop and the thread.
\<close>

fun run_loop :: "extern \<Rightarrow> Timelapse \<Rightarrow> tick_env list \<Rightarrow> state \<Rightarrow> exn option \<times> state" where
  "run_loop ext self [] st = (None, st)"
| "run_loop ext self (env # envs) st =
     (case tick ext self env st of
        (Some e, st') \<Rightarrow> (Some e, st')
      | (None, st') \<Rightarrow> run_loop ext self envs st')"

definition run :: "extern \<Rightarrow> Timelapse \<Rightarrow> datetime \<Rightarrow> tick_env list \<Rightarrow> state \<Rightarrow> exn option \<times> state" where
  "run ext self first_now envs st =
     (case wait_until_next_capture self first_now st of
        (Some e, st') \<Rightarrow> (Some e, st')
      | (None, st') \<Rightarrow> run_loop ext self envs st')"

text \<open>The log entries that a step from \<open>st\<close> to \<open>st'\<close> has added.\<close>

definition new_entries :: "state \<Rightarrow> state \<Rightarrow> log_entry list" where
  "new_entries st st' = drop (length (logged st)) (logged st')"

text \<open>The log entry that a write below a root folder leaves for the path it tried.\<close>

definition outcome_entry :: "io_fault option \<Rightarrow> string \<Rightarrow> log_entry" where
  "outcome_entry f p = (case f of None \<Rightarrow> LogWrote p | Some x \<Rightarrow> LogError p)"

text \<open>The paths that \<open>generate_filename\<close> can return for a root folder, a time and a digest.\<close>

definition is_candidate :: "extern \<Rightarrow> string \<Rightarrow> datetime \<Rightarrow> string \<Rightarrow> string \<Rightarrow> bool" where
  "is_candidate ext root_folder time md5sum p = (\<exists>k. p = candidate ext root_folder time md5sum k)"

text \<open>
  Sample data for the examples: the state before the first capture, and the environment
  of a tick at the sample time with a given outcome of the capture and given storage
  faults.
\<close>

definition empty_state :: state where
  "empty_state = \<lparr>files = [], logged = [], timer = Timer_init\<rparr>"

definition sample_env :: "exn + bytes \<Rightarrow> (string \<Rightarrow> io_fault option) \<Rightarrow> tick_env" where
  "sample_env c f = \<lparr>t_now = sample_noon, t_capture = c, t_fault = f, t_wait_now = sample_noon\<rparr>"

section \<open>The stream multiplexer\<close>

text \<open>
  A sink is the write side of a client connection, a stream of the \<open>io\<close> library. The
  world of the sinks records which of them have been closed, the chunks each has received,
  in order, and every call made on a sink. Whether a call on a sink raises, and what, is
  given by the environment at the time of the call (a broken connection, a stream that
  refuses calls once it is closed). \<open>close\<close> marks the stream closed also when it raises,
  and does nothing on a closed stream.
\<close>

datatype 'a call = CallWrite 'a | CallFlush 'a | CallClose 'a

record 'a sinks =
  closed :: "'a \<Rightarrow> bool"
  received :: "'a \<Rightarrow> bytes list"
  calls :: "'a call list"

record 'a faults =
  write_raises :: "'a \<Rightarrow> exn option"
  flush_raises :: "'a \<Rightarrow> exn option"
  close_raises :: "'a \<Rightarrow> exn option"

definition sink_write :: "'a faults \<Rightarrow> 'a \<Rightarrow> bytes \<Rightarrow> 'a sinks \<Rightarrow> exn option \<times> 'a sinks" where
  "sink_write f s b w =
     (let w1 = w\<lparr>calls := calls w @ [CallWrite s]\<rparr>
      in case write_raises f s of
           Some e \<Rightarrow> (Some e, w1)
         | None \<Rightarrow> (None, w1\<lparr>received := (received w)(s := received w s @ [b])\<rparr>))"

definition sink_flush :: "'a faults \<Rightarrow> 'a \<Rightarrow> 'a sinks \<Rightarrow> exn option \<times> 'a sinks" where
  "sink_flush f s w = (flush_raises f s, w\<lparr>calls := calls w @ [CallFlush s]\<rparr>)"

definition sink_close :: "'a faults \<Rightarrow> 'a \<Rightarrow> 'a sinks \<Rightarrow> exn option \<times> 'a sinks" where
  "sink_close f s w =
     (let w1 = w\<lparr>calls := calls w @ [CallClose s]\<rparr>
      in if closed w s then (None, w1)
         else (close_raises f s, w1\<lparr>closed := (closed w)(s := True)\<rparr>))"

text \<open>
  \<open>StreamTee\<close> holds the set \<open>__streams\<close>, a copy of the set it is built from. The handler of
  \<open>write\<close> and of \<open>flush\<close> for one sink: \<open>except Exception\<close> discards the sink from \<open>__streams\<close>
  and closes it, and passes over an exception of \<open>close\<close> that \<open>except Exception\<close> catches.
\<close>

type_synonym 'a StreamTee = "'a list"


definition discard_and_close :: "'a faults \<Rightarrow> 'a \<Rightarrow> 'a StreamTee \<times> 'a sinks \<Rightarrow>
    exn option \<times> 'a StreamTee \<times> 'a sinks" where
  "discard_and_close f s tw =
     (let strs = removeAll s (fst tw)
      in case sink_close f s (snd tw) of
           (None, w2) \<Rightarrow> (None, strs, w2)
         | (Some e, w2) \<Rightarrow> if is_Exception e then (None, strs, w2) else (Some e, strs, w2))"

text \<open>The body of the loop of \<open>StreamTee.write\<close> for one sink of the snapshot.\<close>

definition write_sink :: "'a faults \<Rightarrow> bytes \<Rightarrow> 'a \<Rightarrow> 'a StreamTee \<times> 'a sinks \<Rightarrow>
    exn option \<times> 'a StreamTee \<times> 'a sinks" where
  "write_sink f b s tw =
     (case sink_write f s b (snd tw) of
        (None, w1) \<Rightarrow> (None, fst tw, w1)
      | (Some e, w1) \<Rightarrow>
          if is_Exception e then discard_and_close f s (fst tw, w1)
          else (Some e, fst tw, w1))"

fun tee_write_loop :: "'a faults \<Rightarrow> bytes \<Rightarrow> 'a list \<Rightarrow> 'a StreamTee \<times> 'a sinks \<Rightarrow>
    exn option \<times> 'a StreamTee \<times> 'a sinks" where
  "tee_write_loop f b [] tw = (None, tw)"
| "tee_write_loop f b (s # snapshot) tw =
     (case write_sink f b s tw of
        (Some e, tw') \<Rightarrow> (Some e, tw')
      | (None, tw') \<Rightarrow> tee_write_loop f b snapshot tw')"

definition StreamTee_write :: "'a faults \<Rightarrow> bytes \<Rightarrow> 'a StreamTee \<Rightarrow> 'a sinks \<Rightarrow>
    exn option \<times> 'a StreamTee \<times> 'a sinks" where
  "StreamTee_write f b strs w = tee_write_loop f b (remdups strs) (strs, w)"




section \<open>The stream server\<close>













definition catchable :: "exn option \<Rightarrow> bool" where
  "catchable r = (case r of None \<Rightarrow> True | Some e \<Rightarrow> is_Exception e)"

text \<open>Sample data: no sink is closed or has received anything, and no call raises.\<close>

definition fresh_sinks :: "nat sinks" where
  "fresh_sinks = \<lparr>closed = (\<lambda>s. False), received = (\<lambda>s. []), calls = []\<rparr>"

definition no_faults :: "nat faults" where
  "no_faults = \<lparr>write_raises = (\<lambda>s. None), flush_raises = (\<lambda>s. None), close_raises = (\<lambda>s. None)\<rparr>"


definition broken_sink :: "nat \<Rightarrow> exn \<Rightarrow> nat faults" where
  \<comment> \<open>the faults when the write of one sink raises\<close>
  "broken_sink x e = no_faults\<lparr>write_raises := (\<lambda>s. if s = x then Some e else None)\<rparr>"




section \<open>Properties of the flooring\<close>

lemma wall_split:
  "w = day_start w + td_seconds w * 1000000 + w mod 1000000"
proof -
  have "w mod (1000000 * 86400) = 1000000 * (w div 1000000 mod 86400) + w mod 1000000"
    by (rule zmod_zmult2_eq) simp
  then have "w mod 86400000000 = ((w div 1000000) mod 86400) * 1000000 + w mod 1000000"
    by simp
  then show ?thesis by (simp add: day_start_def td_seconds_def)
qed

lemma div_mult_le_int:
  fixes a b :: int
  assumes "0 < b"
  shows "(a div b) * b \<le> a"
  using div_mult_mod_eq [of a b] pos_mod_sign [of b a] assms by linarith

lemma floor_seconds:
  assumes "0 < iv"
  shows "\<lfloor>(of_int s :: rat) / total_seconds iv\<rfloor> = (s * 1000000) div iv"
proof -
  have "(of_int s :: rat) / total_seconds iv = of_int (s * 1000000) / of_int iv"
    using assms by (simp add: total_seconds_def)
  then show ?thesis by (simp only: floor_divide_of_int_eq)
qed

lemma floorTime_exact:
  assumes iv: "0 < iv" and lo: "0 \<le> wall dt" and hi: "wall dt \<le> dt_max"
  shows "floorTime dt iv =
           Inr (dt\<lparr>wall := day_start (wall dt) + ((td_seconds (wall dt) * 1000000) div iv) * iv\<rparr>)"
proof -
  let ?s = "td_seconds (wall dt)"
  let ?k = "(?s * 1000000) div iv"
  have s0: "0 \<le> ?s" by (simp add: td_seconds_def)
  have k0: "0 \<le> ?k" using s0 iv by (simp add: pos_imp_zdiv_nonneg_iff)
  have kle: "?k * iv \<le> ?s * 1000000"
    using iv by (rule div_mult_le_int)
  have rt: "total_seconds iv \<noteq> 0" using iv by (simp add: total_seconds_def)
  have rnd: "round ((of_int ?k * total_seconds iv - of_int ?s) * 1000000 :: rat) = ?k * iv - ?s * 1000000"
  proof -
    have "(of_int ?k * total_seconds iv - of_int ?s) * 1000000 = (of_int (?k * iv - ?s * 1000000) :: rat)"
      by (simp add: total_seconds_def algebra_simps)
    then show ?thesis by (simp only: round_of_int)
  qed
  have w: "wall dt + (?k * iv - ?s * 1000000 - wall dt mod 1000000) = day_start (wall dt) + ?k * iv"
    using wall_split [of "wall dt"] by linarith
  have ds0: "0 \<le> day_start (wall dt)"
    using lo zmod_le_nonneg_dividend [of "wall dt" 86400000000] by (simp add: day_start_def)
  have m0: "0 \<le> wall dt mod 1000000" by simp
  have up: "day_start (wall dt) + ?k * iv \<le> dt_max"
    using kle hi wall_split [of "wall dt"] m0 by linarith
  have dn: "0 \<le> day_start (wall dt) + ?k * iv"
    using ds0 k0 iv by simp
  have td: "timedelta 0 (of_int ?k * total_seconds iv - of_int ?s) (- microsecond dt)
              = ?k * iv - ?s * 1000000 - wall dt mod 1000000"
    unfolding timedelta_def rnd microsecond_def by simp
  have "floorTime dt iv = dt_add dt (?k * iv - ?s * 1000000 - wall dt mod 1000000)"
    by (simp only: floorTime_def Let_def floor_seconds [OF iv] rt if_False td)
  also have "\<dots> = Inr (dt\<lparr>wall := day_start (wall dt) + ?k * iv\<rparr>)"
    using up dn by (simp only: dt_add_def Let_def w) simp
  finally show ?thesis .
qed

text \<open>
  Claim C3, as amended. For every current time \<open>t0\<close> and every positive capture interval
  \<open>iv\<close> that is a whole number of seconds (and for which \<open>t0 + iv\<close> is a date that exists),
  the next tick instant \<open>floor(t0 + iv, iv)\<close> is computed, it is strictly later than \<open>t0\<close>,
  so that the delay is positive, and it lies on an exact multiple of the interval from the
  midnight of the day of \<open>t0 + iv\<close>.
\<close>

theorem next_instant_whole_seconds:
  assumes iv: "0 < iv" and whole: "iv mod 1000000 = 0"
    and lo: "0 \<le> wall t0" and hi: "wall t0 + iv \<le> dt_max"
  shows "\<exists>nxt k. next_instant t0 iv = Inr nxt \<and> dt_less t0 nxt \<and>
           0 < delay_until t0 nxt \<and> 0 \<le> k \<and>
           wall nxt = day_start (wall t0 + iv) + k * iv \<and>
           wall nxt \<le> wall t0 + iv \<and> utcoffset nxt = utcoffset t0"
proof -
  let ?n = "t0\<lparr>wall := wall t0 + iv\<rparr>"
  let ?N = "wall t0 + iv"
  let ?s = "td_seconds ?N"
  let ?k = "(?s * 1000000) div iv"
  let ?nxt = "?n\<lparr>wall := day_start ?N + ?k * iv\<rparr>"
  have add: "dt_add t0 iv = Inr ?n"
    using iv lo hi by (simp add: dt_add_def)
  have fl: "floorTime ?n iv = Inr ?nxt"
    using floorTime_exact [of iv ?n] iv lo hi by simp
  have ni: "next_instant t0 iv = Inr ?nxt"
    by (simp add: next_instant_def add fl)
  obtain m where m: "iv = m * 1000000" using whole by (metis mod_0_imp_dvd dvdE mult.commute)
  have mpos: "0 < m" using iv m by simp
  have s0: "0 \<le> ?s" by (simp add: td_seconds_def)
  have k0: "0 \<le> ?k" using s0 iv by (simp add: pos_imp_zdiv_nonneg_iff)
  have keq: "?k * iv = (?s div m) * m * 1000000"
    using m mpos by simp
  have "?s - (?s div m) * m = ?s mod m" by (simp add: minus_div_mult_eq_mod)
  moreover have "?s mod m < m" using mpos by simp
  ultimately have rem: "?s - (?s div m) * m \<le> m - 1" by linarith
  have rem0: "(?s div m) * m \<le> ?s"
    using mpos by (rule div_mult_le_int)
  have mic: "?N mod 1000000 < 1000000" by simp
  have mic0: "0 \<le> ?N mod 1000000" by simp
  have split: "?N = day_start ?N + ?s * 1000000 + ?N mod 1000000"
    by (rule wall_split)
  have gt: "wall t0 < day_start ?N + ?k * iv"
    using split rem mic keq m by linarith
  have le: "day_start ?N + ?k * iv \<le> ?N"
    using split rem0 mic0 keq by linarith
  have less: "dt_less t0 ?nxt" using gt by (simp add: dt_less_def instant_def)
  have "0 < dt_sub ?nxt t0" using gt by (simp add: dt_sub_def instant_def)
  then have "0 < total_seconds (dt_sub ?nxt t0)" by (simp add: total_seconds_def)
  then have del: "0 < delay_until t0 ?nxt" by (simp add: delay_until_def)
  show ?thesis
    using ni less del k0 le by (intro exI [of _ ?nxt] exI [of _ ?k]) simp
qed

theorem next_instant_whole_seconds_witness:
  "(0::int) < 60000000 \<and> (60000000::int) mod 1000000 = 0 \<and>
   0 \<le> wall \<lparr>wall = 63713476817300000, utcoffset = 3600000000\<rparr> \<and>
   wall \<lparr>wall = 63713476817300000, utcoffset = 3600000000\<rparr> + 60000000 \<le> dt_max \<and>
   (\<exists>nxt k. next_instant \<lparr>wall = 63713476817300000, utcoffset = 3600000000\<rparr> 60000000 = Inr nxt \<and>
      dt_less \<lparr>wall = 63713476817300000, utcoffset = 3600000000\<rparr> nxt \<and>
      0 < delay_until \<lparr>wall = 63713476817300000, utcoffset = 3600000000\<rparr> nxt \<and> 0 \<le> k \<and>
      wall nxt = day_start (63713476817300000 + 60000000) + k * 60000000 \<and>
      wall nxt \<le> 63713476817300000 + 60000000 \<and> utcoffset nxt = 3600000000)"
  using next_instant_whole_seconds
    [of 60000000 "\<lparr>wall = 63713476817300000, utcoffset = 3600000000\<rparr>"]
  by (simp add: dt_max_def)

text \<open>
  Claim C3, as stated, fails for an interval of half a second: at 12:00:00.3 the next tick
  instant is 12:00:00.0, which is not later than the current time. (All values of this run
  are exact in floating point.)
\<close>

theorem next_instant_half_second_counterexample:
  "next_instant \<lparr>wall = 63713476800300000, utcoffset = 3600000000\<rparr> 500000
     = Inr \<lparr>wall = 63713476800000000, utcoffset = 3600000000\<rparr> \<and>
   \<not> dt_less \<lparr>wall = 63713476800300000, utcoffset = 3600000000\<rparr>
         \<lparr>wall = 63713476800000000, utcoffset = 3600000000\<rparr>"
  by (simp add: next_instant_def dt_add_def dt_max_def floorTime_def total_seconds_def
      td_seconds_def timedelta_def microsecond_def Let_def dt_less_def instant_def)

section \<open>Properties of the night classification\<close>

text \<open>
  Claim C7. An instant is classified as night if and only if it is before the dawn or after
  the dusk that the solar position calculator gives for it; with dawn not after dusk, the
  instants of dawn and of dusk themselves are classified as day.
\<close>

theorem is_night_iff:
  "(is_night ext t \<longleftrightarrow> instant t < instant (dawn ext t) \<or> instant (dusk ext t) < instant t) \<and>
   (instant (dawn ext t) \<le> instant (dusk ext t) \<longrightarrow>
      instant t = instant (dawn ext t) \<or> instant t = instant (dusk ext t) \<longrightarrow>
      \<not> is_night ext t)"
  by (auto simp: is_night_def dt_less_def)

theorem is_night_iff_witness:
  "instant (dawn \<lparr>strftime = (\<lambda>t f. ''''), dawn = (\<lambda>t. \<lparr>wall = 100, utcoffset = 0\<rparr>),
                   dusk = (\<lambda>t. \<lparr>wall = 200, utcoffset = 0\<rparr>), md5_hexdigest = (\<lambda>b. '''')\<rparr>
              \<lparr>wall = 130, utcoffset = 30\<rparr>)
     \<le> instant (dusk \<lparr>strftime = (\<lambda>t f. ''''), dawn = (\<lambda>t. \<lparr>wall = 100, utcoffset = 0\<rparr>),
                   dusk = (\<lambda>t. \<lparr>wall = 200, utcoffset = 0\<rparr>), md5_hexdigest = (\<lambda>b. '''')\<rparr>
              \<lparr>wall = 130, utcoffset = 30\<rparr>) \<and>
   instant \<lparr>wall = 130, utcoffset = 30\<rparr>
     = instant (dawn \<lparr>strftime = (\<lambda>t f. ''''), dawn = (\<lambda>t. \<lparr>wall = 100, utcoffset = 0\<rparr>),
                   dusk = (\<lambda>t. \<lparr>wall = 200, utcoffset = 0\<rparr>), md5_hexdigest = (\<lambda>b. '''')\<rparr>
              \<lparr>wall = 130, utcoffset = 30\<rparr>) \<and>
   \<not> is_night \<lparr>strftime = (\<lambda>t f. ''''), dawn = (\<lambda>t. \<lparr>wall = 100, utcoffset = 0\<rparr>),
                   dusk = (\<lambda>t. \<lparr>wall = 200, utcoffset = 0\<rparr>), md5_hexdigest = (\<lambda>b. '''')\<rparr>
              \<lparr>wall = 130, utcoffset = 30\<rparr>"
  using is_night_iff
    [of "\<lparr>strftime = (\<lambda>t f. ''''), dawn = (\<lambda>t. \<lparr>wall = 100, utcoffset = 0\<rparr>),
          dusk = (\<lambda>t. \<lparr>wall = 200, utcoffset = 0\<rparr>), md5_hexdigest = (\<lambda>b. '''')\<rparr>"
        "\<lparr>wall = 130, utcoffset = 30\<rparr>"]
  by (simp add: instant_def)

section \<open>Properties of the timer\<close>

lemma timer_calls_interrupts:
  "timer_calls tm (replicate k Interrupt @ cs) = timer_calls ((Timer_interrupt ^^ k) tm) cs"
  by (induction k arbitrary: tm) (simp_all add: funpow_swap1)

lemma sleep_after_interrupt:
  "0 \<le> d \<Longrightarrow> Timer_sleep (Timer_interrupt tm) d = Inr (0, tm)"
  by (simp add: Timer_sleep_def Timer_interrupt_def)

lemma sleeps_after_interrupts:
  "\<forall>d\<in>set ds. 0 \<le> d \<Longrightarrow>
   timer_calls ((Timer_interrupt ^^ length ds) tm) (map Sleep ds) = Inr (replicate (length ds) 0, tm)"
proof (induction ds)
  case Nil
  then show ?case by simp
next
  case (Cons d ds)
  have "(Timer_interrupt ^^ length (d # ds)) tm = Timer_interrupt ((Timer_interrupt ^^ length ds) tm)"
    by simp
  then show ?case using Cons by (simp add: sleep_after_interrupt)
qed

text \<open>
  Claim C9, as amended. \<open>interrupt()\<close> can be called with no waiter present and is counted,
  not idempotent: after \<open>k\<close> interrupts with no sleep in progress the next \<open>k\<close> sleeps
  return at once, and the timer is then as it was before the interrupts. An interrupt
  never deadlocks a later sleep and is never missed: a sleep of any non-negative duration
  that begins after an interrupt returns at once instead of blocking for its duration.
\<close>

theorem Timer_interrupts_counted:
  assumes "\<forall>d\<in>set ds. 0 \<le> d" and "0 \<le> d"
  shows "timer_calls tm (replicate (length ds) Interrupt @ map Sleep ds)
           = Inr (replicate (length ds) 0, tm) \<and>
         Timer_sleep (Timer_interrupt tm) d = Inr (0, tm)"
proof -
  have a: "timer_calls tm (replicate (length ds) Interrupt @ map Sleep ds)
             = Inr (replicate (length ds) 0, tm)"
    using assms(1) by (simp only: timer_calls_interrupts sleeps_after_interrupts)
  show ?thesis using a sleep_after_interrupt [OF assms(2)] by (rule conjI)
qed

theorem Timer_interrupts_counted_witness:
  "(0::rat) \<le> 10 \<and> (0::rat) \<le> 10000000000 \<and>
   timer_calls Timer_init [Interrupt, Interrupt, Sleep 10, Sleep 10000000000]
     = Inr ([0, 0], Timer_init) \<and>
   Timer_sleep (Timer_interrupt Timer_init) 10 = Inr (0, Timer_init)"
  using Timer_interrupts_counted [of "[10, 10000000000]" 10 Timer_init]
  by simp

text \<open>
  Claim C9, as stated, fails: two interrupts with no sleep in progress do not have the
  effect of one. After two interrupts both of the next two sleeps return at once; after one
  interrupt the second sleep blocks for its whole duration.
\<close>

theorem Timer_interrupt_not_idempotent_counterexample:
  "timer_calls (Timer_interrupt (Timer_interrupt Timer_init)) [Sleep 10, Sleep 10]
     = Inr ([0, 0], Timer_init) \<and>
   timer_calls (Timer_interrupt Timer_init) [Sleep 10, Sleep 10]
     = Inr ([0, 10], Timer_init)"
  by (simp add: Timer_interrupt_def Timer_sleep_def Timer_init_def TIMEOUT_MAX_def)

section \<open>Properties of the file names\<close>

lemma digit_inj: "a < 10 \<Longrightarrow> b < 10 \<Longrightarrow> digit a = digit b \<Longrightarrow> a = b"
  using nth_eq_iff_index_eq [of "''0123456789''" a b] by (simp add: digit_def)

lemma str_nat_nonempty: "str_nat n \<noteq> []"
  by (subst str_nat.simps) simp

lemma str_nat_last: "last (str_nat n) = digit (n mod 10)"
  by (subst str_nat.simps) simp

lemma str_nat_butlast: "butlast (str_nat n) = (if n < 10 then [] else str_nat (n div 10))"
  by (subst str_nat.simps) simp

lemma str_nat_inj: "str_nat n = str_nat m \<Longrightarrow> n = m"
proof (induction n arbitrary: m rule: str_nat.induct)
  case (1 n)
  from "1.prems" have l: "digit (n mod 10) = digit (m mod 10)"
    by (metis str_nat_last)
  then have md: "n mod 10 = m mod 10" by (intro digit_inj) simp_all
  from "1.prems" have bl: "(if n < 10 then [] else str_nat (n div 10))
      = (if m < 10 then [] else str_nat (m div 10))"
    by (metis str_nat_butlast)
  show ?case
  proof (cases "n < 10")
    case True
    then have "m < 10" using bl str_nat_nonempty [of "m div 10"] by (auto split: if_splits)
    then show ?thesis using True md by simp
  next
    case False
    then have m10: "\<not> m < 10" using bl str_nat_nonempty [of "n div 10"] by (auto split: if_splits)
    then have "str_nat (n div 10) = str_nat (m div 10)" using bl False by simp
    then have "n div 10 = m div 10" using "1.IH" False by simp
    then show ?thesis using md by (metis div_mult_mod_eq)
  qed
qed

lemma suffix_of_inj: "suffix_of j = suffix_of k \<Longrightarrow> j = k"
  by (auto simp: suffix_of_def str_nat_inj split: if_splits)

lemma join2_file:
  "join2 p (FILE_NAME_TEMPLATE d m s) = join2 p '''' @ FILE_NAME_TEMPLATE d m s"
  by (simp add: join2_def FILE_NAME_TEMPLATE_def sep_def)

lemma path_join_inj:
  "path_join r sd (FILE_NAME_TEMPLATE d m s) = path_join r sd (FILE_NAME_TEMPLATE d m s') \<Longrightarrow> s = s'"
  by (simp add: path_join_def join2_file) (simp add: FILE_NAME_TEMPLATE_def)

lemma candidate_inj: "candidate ext r t m j = candidate ext r t m k \<Longrightarrow> j = k"
  unfolding candidate_def by (blast dest: path_join_inj suffix_of_inj)

lemma finite_suffixes:
  "finite {k. path_exists fs (path_join r sd (FILE_NAME_TEMPLATE d m (''_'' @ str_nat k)))}"
proof -
  let ?F = "\<lambda>k. path_join r sd (FILE_NAME_TEMPLATE d m (''_'' @ str_nat k))"
  have "inj ?F"
    by (rule injI) (auto dest!: path_join_inj str_nat_inj)
  then have "finite (?F -` (fst ` set fs))" by (intro finite_vimageI) simp_all
  moreover have "{k. path_exists fs (?F k)} = ?F -` (fst ` set fs)"
    by (auto simp: path_exists_def)
  ultimately show ?thesis by simp
qed

lemma candidates_left_step:
  "candidates_left fs r sd d m n
     = candidates_left fs r sd d m (Suc n)
       + (if path_exists fs (path_join r sd (FILE_NAME_TEMPLATE d m (''_'' @ str_nat (Suc n)))) then 1 else 0)"
proof -
  let ?P = "\<lambda>k. path_exists fs (path_join r sd (FILE_NAME_TEMPLATE d m (''_'' @ str_nat k)))"
  have fin: "finite {k. Suc n < k \<and> ?P k}"
    by (rule finite_subset [OF _ finite_suffixes [of fs r sd d m]]) auto
  show ?thesis
  proof (cases "?P (Suc n)")
    case True
    then have "{k. n < k \<and> ?P k} = insert (Suc n) {k. Suc n < k \<and> ?P k}" by auto
    then show ?thesis using fin True by (simp add: candidates_left_def)
  next
    case False
    then have "{k. n < k \<and> ?P k} = {k. Suc n < k \<and> ?P k}"
      by (auto simp: less_Suc_eq Suc_lessI) (metis Suc_lessI)
    then show ?thesis using False by (simp add: candidates_left_def)
  qed
qed

lemma loop_measure_decreases:
  assumes "n = 0 \<or> path_exists fs f"
  shows "loop_measure (fs, r, sd, d, m, Suc n, CHR ''_'' # str_nat (Suc n),
                       path_join r sd (FILE_NAME_TEMPLATE d m s))
         < loop_measure (fs, r, sd, d, m, n, s, f)"
  using assms candidates_left_step [of fs r sd d m n]
  by (auto simp: loop_measure_def split: if_splits)

termination generate_loop
  by (relation "measure loop_measure") (simp_all add: loop_measure_decreases)

declare generate_loop.simps [simp del]
lemma path_name_inj:
  "path_join r sd (FILE_NAME_TEMPLATE d m (suffix_of j))
     = path_join r sd (FILE_NAME_TEMPLATE d m (suffix_of k)) \<Longrightarrow> j = k"
  by (blast dest: path_join_inj suffix_of_inj)

lemma finite_existing:
  "finite {k. path_exists fs (path_join r sd (FILE_NAME_TEMPLATE d m (suffix_of k)))}"
proof -
  let ?C = "\<lambda>k. path_join r sd (FILE_NAME_TEMPLATE d m (suffix_of k))"
  have "inj ?C" by (rule injI) (rule path_name_inj)
  then have "finite (?C -` (fst ` set fs))" by (intro finite_vimageI) simp_all
  moreover have "{k. path_exists fs (?C k)} = ?C -` (fst ` set fs)"
    by (auto simp: path_exists_def)
  ultimately show ?thesis by simp
qed

lemma generate_loop_first:
  "generate_loop fs r sd d m (0, [], [])
     = generate_loop fs r sd d m
         (Suc 0, suffix_of (Suc 0), path_join r sd (FILE_NAME_TEMPLATE d m (suffix_of 0)))"
  by (subst generate_loop.simps) (simp add: suffix_of_def)

lemma generate_loop_next:
  "generate_loop fs r sd d m
     (Suc n, suffix_of (Suc n), path_join r sd (FILE_NAME_TEMPLATE d m (suffix_of n)))
   = (if path_exists fs (path_join r sd (FILE_NAME_TEMPLATE d m (suffix_of n)))
      then generate_loop fs r sd d m
             (Suc (Suc n), suffix_of (Suc (Suc n)),
              path_join r sd (FILE_NAME_TEMPLATE d m (suffix_of (Suc n))))
      else path_join r sd (FILE_NAME_TEMPLATE d m (suffix_of n)))"
  by (subst generate_loop.simps) (simp add: suffix_of_def)

lemma generate_loop_least:
  fixes fs r sd d m
  defines "C \<equiv> \<lambda>k. path_join r sd (FILE_NAME_TEMPLATE d m (suffix_of k))"
  shows "\<exists>k\<ge>n. generate_loop fs r sd d m (Suc n, suffix_of (Suc n), C n) = C k \<and>
           \<not> path_exists fs (C k) \<and> (\<forall>j. n \<le> j \<and> j < k \<longrightarrow> path_exists fs (C j))"
proof (induction "card {k. n \<le> k \<and> path_exists fs (C k)}" arbitrary: n rule: less_induct)
  case less
  show ?case
  proof (cases "path_exists fs (C n)")
    case False
    then have "generate_loop fs r sd d m (Suc n, suffix_of (Suc n), C n) = C n"
      unfolding C_def by (subst generate_loop_next) simp
    then show ?thesis using False by (intro exI [of _ n]) auto
  next
    case True
    have fin: "finite {k. n \<le> k \<and> path_exists fs (C k)}"
      unfolding C_def by (rule finite_subset [OF _ finite_existing [of fs r sd d m]]) auto
    have "n \<in> {k. n \<le> k \<and> path_exists fs (C k)}" using True by simp
    moreover have "n \<notin> {k. Suc n \<le> k \<and> path_exists fs (C k)}" by simp
    moreover have "{k. Suc n \<le> k \<and> path_exists fs (C k)} \<subseteq> {k. n \<le> k \<and> path_exists fs (C k)}"
      by auto
    ultimately have "{k. Suc n \<le> k \<and> path_exists fs (C k)} \<subset> {k. n \<le> k \<and> path_exists fs (C k)}"
      by blast
    then have "card {k. Suc n \<le> k \<and> path_exists fs (C k)} < card {k. n \<le> k \<and> path_exists fs (C k)}"
      using fin by (rule psubset_card_mono [rotated])
    from less [OF this] obtain k where k: "Suc n \<le> k"
      "generate_loop fs r sd d m (Suc (Suc n), suffix_of (Suc (Suc n)), C (Suc n)) = C k"
      "\<not> path_exists fs (C k)" "\<forall>j. Suc n \<le> j \<and> j < k \<longrightarrow> path_exists fs (C j)"
      by blast
    have "generate_loop fs r sd d m (Suc n, suffix_of (Suc n), C n) = C k"
      using True k(2) unfolding C_def by (subst generate_loop_next) simp
    moreover have "\<forall>j. n \<le> j \<and> j < k \<longrightarrow> path_exists fs (C j)"
    proof (intro allI impI)
      fix j assume "n \<le> j \<and> j < k"
      then show "path_exists fs (C j)" using True k(4) by (cases "j = n") auto
    qed
    ultimately show ?thesis using k(1) k(3) by (intro exI [of _ k]) auto
  qed
qed

lemma generate_filename_least:
  "\<exists>k. generate_filename ext fs rt t md5 = candidate ext rt t md5 k \<and>
       \<not> path_exists fs (candidate ext rt t md5 k) \<and>
       (\<forall>j<k. path_exists fs (candidate ext rt t md5 j))"
proof -
  obtain k where "generate_loop fs rt
       (SUBDIR_TEMPLATE (strftime ext t DATESTR_FORMAT) (if is_night ext t then ''night'' else ''''))
       (strftime ext t DATETIMESTR_FORMAT) md5
       (Suc 0, suffix_of (Suc 0), candidate ext rt t md5 0) = candidate ext rt t md5 k"
    "\<not> path_exists fs (candidate ext rt t md5 k)"
    "\<forall>j. 0 \<le> j \<and> j < k \<longrightarrow> path_exists fs (candidate ext rt t md5 j)"
    unfolding candidate_def
    using generate_loop_least [of 0 fs rt _ "strftime ext t DATETIMESTR_FORMAT" md5]
    by blast
  then show ?thesis
    by (intro exI [of _ k]) (simp add: generate_filename_def Let_def generate_loop_first candidate_def)
qed

lemma generate_filename_after_create:
  assumes "generate_filename ext fs rt t md5 = candidate ext rt t md5 k"
    and "\<forall>j<k. path_exists fs (candidate ext rt t md5 j)"
  shows "\<exists>k'>k. generate_filename ext ((candidate ext rt t md5 k, content) # fs) rt t md5
                  = candidate ext rt t md5 k'"
proof -
  let ?fs = "(candidate ext rt t md5 k, content) # fs"
  obtain k' where k': "generate_filename ext ?fs rt t md5 = candidate ext rt t md5 k'"
    "\<not> path_exists ?fs (candidate ext rt t md5 k')"
    using generate_filename_least [of ext ?fs rt t md5] by blast
  have "k' \<noteq> k" using k'(2) by (auto simp: path_exists_def)
  moreover have "\<not> k' < k" using k'(2) assms(2) by (auto simp: path_exists_def)
  ultimately have "k < k'" by simp
  then show ?thesis using k'(1) by blast
qed


text \<open>
  Claim C6, as amended. \<open>generate_filename\<close> is a function of the rt folder, the two
  formatted timestamps, the night flag, the digest and the set of the paths that exist. It
  returns a path that does not exist when it returns: the candidate without a suffix when
  that is free, and otherwise the first free one among the candidates with the suffixes
  \<open>_1\<close>, \<open>_2\<close>, ... in this order. Once the path it issued has been
  created, a repeated call returns a candidate with a larger suffix.
\<close>

theorem generate_filename_first_free:
  "\<exists>k. generate_filename ext fs rt t md5 = candidate ext rt t md5 k \<and>
       \<not> path_exists fs (generate_filename ext fs rt t md5) \<and>
       (\<forall>j<k. path_exists fs (candidate ext rt t md5 j)) \<and>
       (\<forall>content. \<exists>k'>k.
          generate_filename ext ((candidate ext rt t md5 k, content) # fs) rt t md5
            = candidate ext rt t md5 k') \<and>
       (\<forall>t'. strftime ext t' = strftime ext t \<and> is_night ext t' = is_night ext t \<longrightarrow>
          generate_filename ext fs rt t' md5 = generate_filename ext fs rt t md5)"
proof -
  obtain k where k: "generate_filename ext fs rt t md5 = candidate ext rt t md5 k"
    "\<not> path_exists fs (candidate ext rt t md5 k)"
    "\<forall>j<k. path_exists fs (candidate ext rt t md5 j)"
    using generate_filename_least [of ext fs rt t md5] by blast
  have later: "\<forall>content. \<exists>k'>k.
          generate_filename ext ((candidate ext rt t md5 k, content) # fs) rt t md5
            = candidate ext rt t md5 k'"
    using generate_filename_after_create [OF k(1) k(3)] by blast
  have det: "\<forall>t'. strftime ext t' = strftime ext t \<and> is_night ext t' = is_night ext t \<longrightarrow>
          generate_filename ext fs rt t' md5 = generate_filename ext fs rt t md5"
  proof (intro allI impI)
    fix t'
    assume "strftime ext t' = strftime ext t \<and> is_night ext t' = is_night ext t"
    then show "generate_filename ext fs rt t' md5 = generate_filename ext fs rt t md5"
      unfolding generate_filename_def by (simp only:)
  qed
  have free: "\<not> path_exists fs (generate_filename ext fs rt t md5)"
    using k(2) unfolding k(1) .
  show ?thesis
    using k(1) free k(3) later det by (intro exI [of _ k] conjI)
qed

theorem generate_filename_first_free_witness:
  "generate_filename sample_extern
     [(''/mnt/usb/timelapse/20200101/img_20200101_120000_md5-d41d8cd98f00b204e9800998ecf8427e.jpg'', [])]
     ''/mnt/usb/timelapse/'' sample_noon ''d41d8cd98f00b204e9800998ecf8427e''
   = ''/mnt/usb/timelapse/20200101/img_20200101_120000_md5-d41d8cd98f00b204e9800998ecf8427e_1.jpg'' \<and>
   (\<exists>k. generate_filename sample_extern
     [(''/mnt/usb/timelapse/20200101/img_20200101_120000_md5-d41d8cd98f00b204e9800998ecf8427e.jpg'', [])]
     ''/mnt/usb/timelapse/'' sample_noon ''d41d8cd98f00b204e9800998ecf8427e''
       = candidate sample_extern ''/mnt/usb/timelapse/'' sample_noon
           ''d41d8cd98f00b204e9800998ecf8427e'' k \<and>
      \<not> path_exists
         [(''/mnt/usb/timelapse/20200101/img_20200101_120000_md5-d41d8cd98f00b204e9800998ecf8427e.jpg'', [])]
         (candidate sample_extern ''/mnt/usb/timelapse/'' sample_noon
            ''d41d8cd98f00b204e9800998ecf8427e'' k))"
proof -
  have first_call: "generate_filename sample_extern
     [(''/mnt/usb/timelapse/20200101/img_20200101_120000_md5-d41d8cd98f00b204e9800998ecf8427e.jpg'', [])]
     ''/mnt/usb/timelapse/'' sample_noon ''d41d8cd98f00b204e9800998ecf8427e''
   = ''/mnt/usb/timelapse/20200101/img_20200101_120000_md5-d41d8cd98f00b204e9800998ecf8427e_1.jpg''"
    by (simp add: generate_filename_def sample_extern_def sample_noon_def is_night_def dt_less_def
        instant_def DATESTR_FORMAT_def DATETIMESTR_FORMAT_def SUBDIR_TEMPLATE_def sep_def
        path_exists_def path_join_def join2_def FILE_NAME_TEMPLATE_def str_nat.simps digit_def
        generate_loop.simps)
  obtain k where k:
    "generate_filename sample_extern
       [(''/mnt/usb/timelapse/20200101/img_20200101_120000_md5-d41d8cd98f00b204e9800998ecf8427e.jpg'', [])]
       ''/mnt/usb/timelapse/'' sample_noon ''d41d8cd98f00b204e9800998ecf8427e''
     = candidate sample_extern ''/mnt/usb/timelapse/'' sample_noon
         ''d41d8cd98f00b204e9800998ecf8427e'' k"
    "\<not> path_exists
       [(''/mnt/usb/timelapse/20200101/img_20200101_120000_md5-d41d8cd98f00b204e9800998ecf8427e.jpg'', [])]
       (generate_filename sample_extern
          [(''/mnt/usb/timelapse/20200101/img_20200101_120000_md5-d41d8cd98f00b204e9800998ecf8427e.jpg'', [])]
          ''/mnt/usb/timelapse/'' sample_noon ''d41d8cd98f00b204e9800998ecf8427e'')"
    using generate_filename_first_free [of sample_extern
      "[(''/mnt/usb/timelapse/20200101/img_20200101_120000_md5-d41d8cd98f00b204e9800998ecf8427e.jpg'', [])]"
      "''/mnt/usb/timelapse/''" sample_noon "''d41d8cd98f00b204e9800998ecf8427e''"]
    by blast
  have free: "\<not> path_exists
       [(''/mnt/usb/timelapse/20200101/img_20200101_120000_md5-d41d8cd98f00b204e9800998ecf8427e.jpg'', [])]
       (candidate sample_extern ''/mnt/usb/timelapse/'' sample_noon
          ''d41d8cd98f00b204e9800998ecf8427e'' k)"
    using k(2) unfolding k(1) .
  show ?thesis
    using first_call k(1) free by (intro conjI exI [of _ k])
qed

text \<open>
  Claim C6, as stated, fails in its last part: \<open>generate_filename\<close> keeps no record of the
  names it has issued. With the unsuffixed path taken, two calls with no file created
  between them both issue the suffix \<open>_1\<close>.
\<close>

theorem generate_filename_reuses_suffix_counterexample:
  "(let fs = [(''/mnt/usb/timelapse/20200101/img_20200101_120000_md5-d41d8cd98f00b204e9800998ecf8427e.jpg'', [])];
        first_call = generate_filename sample_extern fs ''/mnt/usb/timelapse/'' sample_noon
                       ''d41d8cd98f00b204e9800998ecf8427e'';
        second_call = generate_filename sample_extern fs ''/mnt/usb/timelapse/'' sample_noon
                       ''d41d8cd98f00b204e9800998ecf8427e''
    in first_call = ''/mnt/usb/timelapse/20200101/img_20200101_120000_md5-d41d8cd98f00b204e9800998ecf8427e_1.jpg''
       \<and> second_call = first_call)"
  by (simp add: generate_filename_def sample_extern_def sample_noon_def is_night_def dt_less_def
      instant_def DATESTR_FORMAT_def DATETIMESTR_FORMAT_def SUBDIR_TEMPLATE_def sep_def
      path_exists_def path_join_def join2_def FILE_NAME_TEMPLATE_def str_nat.simps digit_def
      generate_loop.simps)


section \<open>The digest in the basename\<close>

text \<open>
  Claim C8 fails on the code. The pattern of the mover asks for one hexadecimal digit
  followed by the two characters \<open>32\<close>, not for 32 hexadecimal digits, so it does not match
  the basename that \<open>generate_filename\<close> produces for the digest
  \<open>d41d8cd98f00b204e9800998ecf8427e\<close>: \<open>get_md5sum\<close> with \<open>try_from_basename=True\<close> opens the
  file and hashes its content. It raises when the file is not there, and for a file whose
  content has changed it returns another digest than the embedded one.
\<close>

theorem get_md5sum_reads_the_file:
  "generate_filename sample_extern [] ''/mnt/usb/timelapse/'' sample_noon
       ''d41d8cd98f00b204e9800998ecf8427e''
     = ''/mnt/usb/timelapse/20200101/img_20200101_120000_md5-d41d8cd98f00b204e9800998ecf8427e.jpg'' \<and>
   MD5SUM_REGEX_search (basename
       ''/mnt/usb/timelapse/20200101/img_20200101_120000_md5-d41d8cd98f00b204e9800998ecf8427e.jpg'')
     = None \<and>
   get_md5sum sample_extern []
       ''/mnt/usb/timelapse/20200101/img_20200101_120000_md5-d41d8cd98f00b204e9800998ecf8427e.jpg''
       True
     = Inl OSError \<and>
   get_md5sum sample_extern
       [(''/mnt/usb/timelapse/20200101/img_20200101_120000_md5-d41d8cd98f00b204e9800998ecf8427e.jpg'', [97])]
       ''/mnt/usb/timelapse/20200101/img_20200101_120000_md5-d41d8cd98f00b204e9800998ecf8427e.jpg''
       True
     = Inr (''0cc175b9c0f1b6a831c399e269772661'',
            [''/mnt/usb/timelapse/20200101/img_20200101_120000_md5-d41d8cd98f00b204e9800998ecf8427e.jpg''])"
  by (simp add: generate_filename_def sample_extern_def sample_noon_def is_night_def dt_less_def
      instant_def DATESTR_FORMAT_def DATETIMESTR_FORMAT_def SUBDIR_TEMPLATE_def sep_def
      path_exists_def path_join_def join2_def FILE_NAME_TEMPLATE_def generate_loop.simps
      get_md5sum_def md5_of_file_def basename_def MD5SUM_REGEX_match_def is_hex_def)

section \<open>Properties of writing a capture\<close>

lemma generate_filename_is_candidate:
  "is_candidate ext r t m (generate_filename ext fs r t m)"
  using generate_filename_least [of ext fs r t m] unfolding is_candidate_def by blast

lemma write_one_fst:
  "fst (write_one ext fault input time r acc) = (fst acc \<and> fault r = None)"
  by (simp add: write_one_def Let_def split: option.splits io_fault.splits)

lemma write_one_timer:
  "timer (snd (write_one ext fault input time r acc)) = timer (snd acc)"
  by (simp add: write_one_def Let_def split: option.splits io_fault.splits)

lemma write_one_files:
  "set (files (snd acc)) \<subseteq> set (files (snd (write_one ext fault input time r acc)))"
  by (auto simp: write_one_def Let_def split: option.splits io_fault.splits)

lemma write_one_logged:
  "logged (snd (write_one ext fault input time r acc))
     = logged (snd acc) @
       [outcome_entry (fault r)
          (generate_filename ext (files (snd acc)) r time (md5_hexdigest ext input))]"
  by (simp add: write_one_def Let_def outcome_entry_def split: option.splits io_fault.splits)

lemma write_one_written:
  "fault r = None \<Longrightarrow>
   (generate_filename ext (files (snd acc)) r time (md5_hexdigest ext input), input)
     \<in> set (files (snd (write_one ext fault input time r acc)))"
  by (simp add: write_one_def Let_def)

lemma write_loop_fst:
  "fst (write_loop ext fault input time rs acc) = (fst acc \<and> (\<forall>r\<in>set rs. fault r = None))"
  by (induction rs arbitrary: acc) (auto simp: write_one_fst)

lemma write_loop_timer:
  "timer (snd (write_loop ext fault input time rs acc)) = timer (snd acc)"
  by (induction rs arbitrary: acc) (simp_all add: write_one_timer)

lemma write_loop_files:
  "set (files (snd acc)) \<subseteq> set (files (snd (write_loop ext fault input time rs acc)))"
proof (induction rs arbitrary: acc)
  case Nil
  then show ?case by simp
next
  case (Cons r rs)
  show ?case
    using write_one_files [of acc ext fault input time r]
      Cons [of "write_one ext fault input time r acc"]
    by simp
qed

lemma write_loop_logged:
  "\<exists>new. logged (snd (write_loop ext fault input time rs acc)) = logged (snd acc) @ new"
proof (induction rs arbitrary: acc)
  case Nil
  then show ?case by simp
next
  case (Cons r rs)
  define a1 where "a1 = write_one ext fault input time r acc"
  obtain new where "logged (snd (write_loop ext fault input time rs a1)) = logged (snd a1) @ new"
    using Cons [of a1] by (elim exE)
  then have "logged (snd (write_loop ext fault input time (r # rs) acc))
      = logged (snd acc) @ (outcome_entry (fault r)
          (generate_filename ext (files (snd acc)) r time (md5_hexdigest ext input)) # new)"
    by (simp add: a1_def write_one_logged)
  then show ?case by (rule exI)
qed

lemma new_entries_append:
  "logged st' = logged st @ new \<Longrightarrow> new_entries st st' = new"
  by (simp add: new_entries_def)

lemma write_loop_attempt:
  assumes "r \<in> set rs"
  shows "\<exists>p. is_candidate ext r time (md5_hexdigest ext input) p \<and>
            outcome_entry (fault r) p
              \<in> set (new_entries (snd acc) (snd (write_loop ext fault input time rs acc))) \<and>
            (fault r = None \<longrightarrow>
               (p, input) \<in> set (files (snd (write_loop ext fault input time rs acc))))"
  using assms
proof (induction rs arbitrary: acc)
  case Nil
  then show ?case by simp
next
  case (Cons x rs)
  define a1 where "a1 = write_one ext fault input time x acc"
  define R where "R = write_loop ext fault input time rs a1"
  define p1 where "p1 = generate_filename ext (files (snd acc)) x time (md5_hexdigest ext input)"
  have Req: "write_loop ext fault input time (x # rs) acc = R"
    by (simp add: R_def a1_def)
  have l1: "logged (snd a1) = logged (snd acc) @ [outcome_entry (fault x) p1]"
    unfolding a1_def p1_def by (rule write_one_logged)
  obtain new where new: "logged (snd R) = logged (snd a1) @ new"
    using write_loop_logged [of ext fault input time rs a1] unfolding R_def by (elim exE)
  have lR: "logged (snd R) = logged (snd acc) @ (outcome_entry (fault x) p1 # new)"
    using l1 new by simp
  have ne: "new_entries (snd acc) (snd R) = outcome_entry (fault x) p1 # new"
    using lR by (rule new_entries_append)
  have ne1: "new_entries (snd a1) (snd R) = new"
    using new by (rule new_entries_append)
  show ?case
  proof (cases "r = x")
    case True
    have c: "is_candidate ext x time (md5_hexdigest ext input) p1"
      unfolding p1_def by (rule generate_filename_is_candidate)
    have e: "outcome_entry (fault x) p1 \<in> set (new_entries (snd acc) (snd R))"
      unfolding ne by simp
    have f: "fault x = None \<longrightarrow> (p1, input) \<in> set (files (snd R))"
    proof
      assume "fault x = None"
      then have "(p1, input) \<in> set (files (snd a1))"
        unfolding p1_def a1_def by (rule write_one_written)
      then show "(p1, input) \<in> set (files (snd R))"
        using write_loop_files [of a1 ext fault input time rs] unfolding R_def by (rule rev_subsetD)
    qed
    show ?thesis unfolding Req True using c e f by (intro exI [of _ p1] conjI)
  next
    case False
    then have "r \<in> set rs" using Cons.prems by simp
    from Cons.IH [OF this, of a1] obtain p where p:
      "is_candidate ext r time (md5_hexdigest ext input) p"
      "outcome_entry (fault r) p \<in> set (new_entries (snd a1) (snd R))"
      "fault r = None \<longrightarrow> (p, input) \<in> set (files (snd R))"
      unfolding R_def by (elim exE conjE)
    have e: "outcome_entry (fault r) p \<in> set (new_entries (snd acc) (snd R))"
      using p(2) unfolding ne ne1 by simp
    show ?thesis unfolding Req using p(1) e p(3) by (intro exI [of _ p] conjI)
  qed
qed

lemma write_to_file_fst:
  "fst (write_to_file ext fault input rs time st) = (\<forall>r\<in>set rs. fault r = None)"
  by (simp add: write_to_file_def write_loop_fst)

lemma write_to_file_timer:
  "timer (snd (write_to_file ext fault input rs time st)) = timer st"
  by (simp add: write_to_file_def write_loop_timer)

lemma write_to_file_files:
  "set (files st) \<subseteq> set (files (snd (write_to_file ext fault input rs time st)))"
  using write_loop_files [of "(True, st)" ext fault input time "remdups rs"]
  by (simp add: write_to_file_def)

lemma write_to_file_logged:
  "\<exists>new. logged (snd (write_to_file ext fault input rs time st)) = logged st @ new"
  using write_loop_logged [of ext fault input time "remdups rs" "(True, st)"]
  by (simp add: write_to_file_def)

lemma write_to_file_attempt:
  assumes "r \<in> set rs"
  shows "\<exists>p. is_candidate ext r time (md5_hexdigest ext input) p \<and>
            outcome_entry (fault r) p
              \<in> set (new_entries st (snd (write_to_file ext fault input rs time st))) \<and>
            (fault r = None \<longrightarrow>
               (p, input) \<in> set (files (snd (write_to_file ext fault input rs time st))))"
  using write_loop_attempt [of r "remdups rs" ext time input fault "(True, st)"] assms
  by (simp add: write_to_file_def)

lemma new_entries_trans:
  assumes "logged st1 = logged st @ a" and "logged st2 = logged st1 @ b"
  shows "new_entries st st2 = new_entries st st1 @ new_entries st1 st2"
  using assms by (simp add: new_entries_def)

lemma fallback_loop_success:
  "fst acc \<Longrightarrow> fallback_loop ext fault input fb time its acc = acc"
  by (cases its) simp_all

lemma fallback_loop_timer:
  "timer (snd (fallback_loop ext fault input fb time its acc)) = timer (snd acc)"
  by (induction its arbitrary: acc) (simp_all add: write_to_file_timer)

lemma fallback_loop_files:
  "set (files (snd acc)) \<subseteq> set (files (snd (fallback_loop ext fault input fb time its acc)))"
proof (induction its arbitrary: acc)
  case Nil
  then show ?case by simp
next
  case (Cons i its)
  define W where "W = write_to_file ext fault input fb time (snd acc)"
  have "set (files (snd acc)) \<subseteq> set (files (snd W))"
    unfolding W_def by (rule write_to_file_files)
  moreover have "set (files (snd W)) \<subseteq> set (files (snd (fallback_loop ext fault input fb time its W)))"
    by (rule Cons)
  ultimately have "set (files (snd acc)) \<subseteq> set (files (snd (fallback_loop ext fault input fb time its W)))"
    by (rule subset_trans)
  then show ?case by (simp add: W_def)
qed

lemma fallback_loop_logged:
  "\<exists>new. logged (snd (fallback_loop ext fault input fb time its acc)) = logged (snd acc) @ new"
proof (induction its arbitrary: acc)
  case Nil
  then show ?case by simp
next
  case (Cons i its)
  define W where "W = write_to_file ext fault input fb time (snd acc)"
  obtain a where a: "logged (snd W) = logged (snd acc) @ a"
    using write_to_file_logged [of ext fault input fb time "snd acc"] unfolding W_def by (elim exE)
  obtain b where b: "logged (snd (fallback_loop ext fault input fb time its W)) = logged (snd W) @ b"
    using Cons [of W] by (elim exE)
  have "logged (snd (fallback_loop ext fault input fb time its W)) = logged (snd acc) @ (a @ b)"
    using a b by simp
  then have "\<exists>new. logged (snd (fallback_loop ext fault input fb time its W)) = logged (snd acc) @ new"
    by (rule exI)
  then show ?case by (cases "fst acc") (simp_all add: W_def)
qed

lemma fallback_loop_attempt:
  assumes "\<not> fst acc" and "its \<noteq> []" and "f \<in> set fb"
  shows "\<exists>p. is_candidate ext f time (md5_hexdigest ext input) p \<and>
            outcome_entry (fault f) p
              \<in> set (new_entries (snd acc) (snd (fallback_loop ext fault input fb time its acc)))"
proof -
  obtain i rest where its: "its = i # rest" using assms(2) by (cases its) simp_all
  define W where "W = write_to_file ext fault input fb time (snd acc)"
  define R where "R = fallback_loop ext fault input fb time rest W"
  have Req: "fallback_loop ext fault input fb time its acc = R"
    using assms(1) by (simp add: its R_def W_def)
  obtain a where a: "logged (snd W) = logged (snd acc) @ a"
    using write_to_file_logged [of ext fault input fb time "snd acc"] unfolding W_def by (elim exE)
  obtain b where b: "logged (snd R) = logged (snd W) @ b"
    using fallback_loop_logged [of ext fault input fb time rest W] unfolding R_def by (elim exE)
  have ne: "new_entries (snd acc) (snd R) = new_entries (snd acc) (snd W) @ new_entries (snd W) (snd R)"
    using a b by (rule new_entries_trans)
  obtain p where p: "is_candidate ext f time (md5_hexdigest ext input) p"
    "outcome_entry (fault f) p \<in> set (new_entries (snd acc) (snd W))"
    using write_to_file_attempt [OF assms(3), of ext time input fault "snd acc"]
    unfolding W_def by (elim exE conjE)
  have "outcome_entry (fault f) p \<in> set (new_entries (snd acc) (snd R))"
    unfolding ne using p(2) by simp
  then show ?thesis unfolding Req using p(1) by (intro exI [of _ p] conjI)
qed

lemma next_instant_ok:
  assumes "0 < iv" and "0 \<le> wall t" and "wall t + iv \<le> dt_max"
  shows "\<exists>nxt. next_instant t iv = Inr nxt"
proof -
  have add: "dt_add t iv = Inr (t\<lparr>wall := wall t + iv\<rparr>)"
    using assms by (simp add: dt_add_def)
  have "\<exists>nxt. floorTime (t\<lparr>wall := wall t + iv\<rparr>) iv = Inr nxt"
    using floorTime_exact [of iv "t\<lparr>wall := wall t + iv\<rparr>"] assms by simp
  then show ?thesis by (simp add: next_instant_def add)
qed

lemma wait_files:
  "files (snd (wait_until_next_capture self t st)) = files st"
  by (simp add: wait_until_next_capture_def Let_def Timer_sleep_def delay_until_def
      split: sum.splits prod.splits)

lemma next_instant_bound:
  assumes "0 < iv" and "0 \<le> wall t" and "wall t + iv \<le> dt_max"
  shows "\<exists>nxt. next_instant t iv = Inr nxt \<and> delay_until t nxt \<le> total_seconds iv"
proof -
  let ?n = "t\<lparr>wall := wall t + iv\<rparr>"
  let ?k = "(td_seconds (wall t + iv) * 1000000) div iv"
  let ?nxt = "?n\<lparr>wall := day_start (wall t + iv) + ?k * iv\<rparr>"
  have add: "dt_add t iv = Inr ?n"
    using assms by (simp add: dt_add_def)
  have fl: "floorTime ?n iv = Inr ?nxt"
    using floorTime_exact [of iv ?n] assms by simp
  have ni: "next_instant t iv = Inr ?nxt"
    by (simp add: next_instant_def add fl)
  have "?k * iv \<le> td_seconds (wall t + iv) * 1000000"
    using assms(1) by (rule div_mult_le_int)
  moreover have "0 \<le> (wall t + iv) mod 1000000" by simp
  ultimately have "day_start (wall t + iv) + ?k * iv \<le> wall t + iv"
    using wall_split [of "wall t + iv"] by linarith
  then have "dt_sub ?nxt t \<le> iv" by (simp add: dt_sub_def instant_def)
  then have "total_seconds (dt_sub ?nxt t) \<le> total_seconds iv"
    by (simp add: total_seconds_def divide_right_mono)
  moreover have "0 \<le> total_seconds iv" using assms(1) by (simp add: total_seconds_def)
  ultimately have "delay_until t ?nxt \<le> total_seconds iv"
    by (simp add: delay_until_def)
  then show ?thesis using ni by (intro exI [of _ ?nxt] conjI)
qed

lemma wait_ok:
  assumes "next_instant t (interval self) = Inr nxt"
    and "delay_until t nxt \<le> TIMEOUT_MAX"
  shows "fst (wait_until_next_capture self t st) = None \<and>
         logged (snd (wait_until_next_capture self t st))
           = logged st @ [LogSleeping (delay_until t nxt) nxt]"
proof -
  have "0 \<le> delay_until t nxt" by (simp add: delay_until_def)
  then show ?thesis
    using assms by (simp add: wait_until_next_capture_def Let_def Timer_sleep_def)
qed

lemma wait_logged:
  "\<exists>new. logged (snd (wait_until_next_capture self t st)) = logged st @ new"
  by (simp add: wait_until_next_capture_def Let_def Timer_sleep_def delay_until_def
      split: sum.splits prod.splits)

lemma tick_unfold:
  assumes "t_capture env = Inr img"
  shows "tick ext self env st =
           wait_until_next_capture self (t_wait_now env)
             (snd (fallback_loop ext (t_fault env) img (fallback_folders self) (t_now env)
                     (fallback_folders self)
                     (write_to_file ext (t_fault env) img (root_folders self) (t_now env) st)))"
  using assms by (simp add: tick_def Let_def)

lemma run_loop_continues:
  "tick ext self env st = (None, st') \<Longrightarrow>
   run_loop ext self (env # envs) st = run_loop ext self envs st'"
  by simp

lemma run_loop_ends:
  "tick ext self env st = (Some e, st') \<Longrightarrow>
   run_loop ext self (env # envs) st = (Some e, st')"
  by simp

lemma tick_capture_raises:
  "t_capture env = Inl e \<Longrightarrow> tick ext self env st = (Some e, st)"
  by (simp add: tick_def)

section \<open>Properties of a tick\<close>

lemmas eval_defs = tick_def write_to_file_def write_one_def generate_filename_def
  sample_extern_def sample_noon_def sample_env_def empty_state_def is_night_def dt_less_def
  instant_def DATESTR_FORMAT_def DATETIMESTR_FORMAT_def SUBDIR_TEMPLATE_def sep_def
  path_exists_def path_join_def join2_def FILE_NAME_TEMPLATE_def generate_loop.simps
  TIMELAPSE_FOLDERS_FALLBACK_def TIMELAPSE_INTERVAL_def Let_def

text \<open>
  Claim C10. With no folders to write to, \<open>_write_to_file\<close> returns \<open>True\<close> and changes
  nothing. A tick whose set of primary root folders is empty is therefore a success: it
  goes straight to the wait for the next capture, no fallback folder is attempted and no
  file is written anywhere.
\<close>

theorem empty_primary_set_is_success:
  "write_to_file ext fault input [] time st = (True, st) \<and>
   (root_folders self = [] \<longrightarrow> t_capture env = Inr img \<longrightarrow>
      tick ext self env st = wait_until_next_capture self (t_wait_now env) st \<and>
      files (snd (tick ext self env st)) = files st)"
proof -
  have w: "write_to_file ext fault input [] time st = (True, st)" for fault input time
    by (simp add: write_to_file_def)
  have "tick ext self env st = wait_until_next_capture self (t_wait_now env) st"
    if "root_folders self = []" "t_capture env = Inr img"
    using that by (simp add: tick_unfold w fallback_loop_success)
  then show ?thesis using w by (simp add: wait_files)
qed

theorem empty_primary_set_is_success_witness:
  "root_folders \<lparr>interval = TIMELAPSE_INTERVAL, root_folders = [],
                  fallback_folders = TIMELAPSE_FOLDERS_FALLBACK\<rparr> = [] \<and>
   t_capture (sample_env (Inr [97]) (\<lambda>r. None)) = Inr [97] \<and>
   files (snd (tick sample_extern
     \<lparr>interval = TIMELAPSE_INTERVAL, root_folders = [],
       fallback_folders = TIMELAPSE_FOLDERS_FALLBACK\<rparr>
     (sample_env (Inr [97]) (\<lambda>r. None)) empty_state)) = []"
  using empty_primary_set_is_success
    [where self = "\<lparr>interval = TIMELAPSE_INTERVAL, root_folders = [],
       fallback_folders = TIMELAPSE_FOLDERS_FALLBACK\<rparr>"
       and env = "sample_env (Inr [97]) (\<lambda>r. None)" and img = "[97]"
       and ext = sample_extern and st = empty_state]
  by (simp add: sample_env_def empty_state_def wait_files)

text \<open>
  Claim C1, as amended. \<open>_write_to_file\<close> reports success only when every write succeeded,
  so the fallback folders are attempted exactly when at least one primary write failed.
  When every primary write succeeded the tick is the primary pass followed by the wait:
  no fallback folder is written. When some primary write failed, every fallback folder is
  attempted after the primary pass, whether or not another primary write succeeded.
\<close>

theorem fallback_after_a_primary_failure:
  assumes "t_capture env = Inr img"
  shows "((\<forall>r\<in>set (root_folders self). t_fault env r = None) \<longrightarrow>
            tick ext self env st =
              wait_until_next_capture self (t_wait_now env)
                (snd (write_to_file ext (t_fault env) img (root_folders self) (t_now env) st))) \<and>
         ((\<exists>r\<in>set (root_folders self). t_fault env r \<noteq> None) \<longrightarrow>
            (\<forall>f\<in>set (fallback_folders self).
               \<exists>p. is_candidate ext f (t_now env) (md5_hexdigest ext img) p \<and>
                   outcome_entry (t_fault env f) p
                     \<in> set (new_entries
                              (snd (write_to_file ext (t_fault env) img (root_folders self)
                                      (t_now env) st))
                              (snd (tick ext self env st)))))"
proof -
  define P where "P = write_to_file ext (t_fault env) img (root_folders self) (t_now env) st"
  define FB where "FB = fallback_loop ext (t_fault env) img (fallback_folders self) (t_now env)
                     (fallback_folders self) P"
  define W where "W = wait_until_next_capture self (t_wait_now env) (snd FB)"
  have T: "tick ext self env st = W"
    unfolding W_def FB_def P_def using assms by (rule tick_unfold)
  have Pfst: "fst P = (\<forall>r\<in>set (root_folders self). t_fault env r = None)"
    unfolding P_def by (rule write_to_file_fst)
  have a: "tick ext self env st = wait_until_next_capture self (t_wait_now env) (snd P)"
    if "\<forall>r\<in>set (root_folders self). t_fault env r = None"
  proof -
    have "fst P" using that Pfst by simp
    then have "FB = P" unfolding FB_def by (rule fallback_loop_success)
    then show ?thesis using T by (simp add: W_def)
  qed
  have b: "\<exists>p. is_candidate ext f (t_now env) (md5_hexdigest ext img) p \<and>
              outcome_entry (t_fault env f) p \<in> set (new_entries (snd P) (snd W))"
    if fail: "\<exists>r\<in>set (root_folders self). t_fault env r \<noteq> None"
      and f: "f \<in> set (fallback_folders self)" for f
  proof -
    have nf: "\<not> fst P" using fail Pfst by simp
    have ne: "fallback_folders self \<noteq> []" using f by auto
    obtain p where p: "is_candidate ext f (t_now env) (md5_hexdigest ext img) p"
      "outcome_entry (t_fault env f) p \<in> set (new_entries (snd P) (snd FB))"
      using fallback_loop_attempt [OF nf ne f, of ext "t_now env" img "t_fault env"]
      unfolding FB_def by (elim exE conjE)
    obtain x where x: "logged (snd FB) = logged (snd P) @ x"
      using fallback_loop_logged [of ext "t_fault env" img "fallback_folders self" "t_now env"
          "fallback_folders self" P]
      unfolding FB_def by (elim exE)
    obtain y where y: "logged (snd W) = logged (snd FB) @ y"
      using wait_logged [of self "t_wait_now env" "snd FB"] unfolding W_def by (elim exE)
    have "new_entries (snd P) (snd W) = new_entries (snd P) (snd FB) @ new_entries (snd FB) (snd W)"
      using x y by (rule new_entries_trans)
    then have "outcome_entry (t_fault env f) p \<in> set (new_entries (snd P) (snd W))"
      using p(2) by simp
    then show ?thesis using p(1) by (intro exI [of _ p] conjI)
  qed
  show ?thesis
    unfolding T P_def [symmetric] using a b unfolding T by blast
qed

theorem fallback_after_a_primary_failure_witness:
  "t_capture (sample_env (Inr [97]) (\<lambda>r. if r = ''/mnt/hdd/timelapse/'' then Some OpenFails else None))
     = Inr [97] \<and>
   (\<exists>p. is_candidate sample_extern ''/mnt/sdcard/timelapse/'' sample_noon
          ''0cc175b9c0f1b6a831c399e269772661'' p \<and>
        LogWrote p \<in> set (logged (snd (tick sample_extern
           \<lparr>interval = TIMELAPSE_INTERVAL,
             root_folders = [''/mnt/usb/timelapse/'', ''/mnt/hdd/timelapse/''],
             fallback_folders = TIMELAPSE_FOLDERS_FALLBACK\<rparr>
           (sample_env (Inr [97])
              (\<lambda>r. if r = ''/mnt/hdd/timelapse/'' then Some OpenFails else None))
           empty_state))))"
proof -
  let ?env = "sample_env (Inr [97])
       (\<lambda>r. if r = ''/mnt/hdd/timelapse/'' then Some OpenFails else None)"
  let ?self = "\<lparr>interval = TIMELAPSE_INTERVAL,
             root_folders = [''/mnt/usb/timelapse/'', ''/mnt/hdd/timelapse/''],
             fallback_folders = TIMELAPSE_FOLDERS_FALLBACK\<rparr>"
  have c: "t_capture ?env = Inr [97]" by (simp add: sample_env_def)
  have fail: "\<exists>r\<in>set (root_folders ?self). t_fault ?env r \<noteq> None"
    by (simp add: sample_env_def)
  have fb: "''/mnt/sdcard/timelapse/'' \<in> set (fallback_folders ?self)"
    by (simp add: TIMELAPSE_FOLDERS_FALLBACK_def)
  obtain p where p: "is_candidate sample_extern ''/mnt/sdcard/timelapse/'' (t_now ?env)
        (md5_hexdigest sample_extern [97]) p"
    "outcome_entry (t_fault ?env ''/mnt/sdcard/timelapse/'') p
       \<in> set (new_entries
                (snd (write_to_file sample_extern (t_fault ?env) [97] (root_folders ?self)
                        (t_now ?env) empty_state))
                (snd (tick sample_extern ?self ?env empty_state)))"
    using fallback_after_a_primary_failure [OF c, of ?self sample_extern empty_state] fail fb
    by blast
  have "LogWrote p \<in> set (logged (snd (tick sample_extern ?self ?env empty_state)))"
    using p(2) by (auto simp: new_entries_def outcome_entry_def sample_env_def dest: in_set_dropD)
  moreover have "is_candidate sample_extern ''/mnt/sdcard/timelapse/'' sample_noon
          ''0cc175b9c0f1b6a831c399e269772661'' p"
    using p(1) by (simp add: sample_env_def sample_extern_def)
  ultimately show ?thesis using c by blast
qed

text \<open>
  Claim C1, as stated, fails: with two primary folders of which one is written and the
  other fails at \<open>open\<close>, the tick also writes the image below the fallback folder.
\<close>

theorem fallback_written_after_primary_success_counterexample:
  "files (snd (tick sample_extern
     \<lparr>interval = TIMELAPSE_INTERVAL,
       root_folders = [''/mnt/usb/timelapse/'', ''/mnt/hdd/timelapse/''],
       fallback_folders = TIMELAPSE_FOLDERS_FALLBACK\<rparr>
     (sample_env (Inr [97])
        (\<lambda>r. if r = ''/mnt/hdd/timelapse/'' then Some OpenFails else None))
     empty_state))
   = [(''/mnt/sdcard/timelapse/20200101/img_20200101_120000_md5-0cc175b9c0f1b6a831c399e269772661.jpg'', [97]),
      (''/mnt/usb/timelapse/20200101/img_20200101_120000_md5-0cc175b9c0f1b6a831c399e269772661.jpg'', [97])]"
  by (simp add: eval_defs wait_files)

text \<open>
  Claim C2, as amended. On a tick on which the capture succeeds and per-target writes raise
  (at \<open>os.makedirs\<close>, \<open>open\<close> or \<open>f.write\<close>), the run loop does not end: every failure is
  logged, every primary target is still attempted and the targets that do not fail receive
  the image, and the loop proceeds to the wait for the next capture and to the next
  iteration. (The wait itself is computed for a positive interval of at most
  \<open>threading.TIMEOUT_MAX\<close> seconds and a date that exists.)
\<close>

theorem write_failures_do_not_end_the_loop:
  assumes cap: "t_capture env = Inr img"
    and iv: "0 < interval self"
    and short: "interval self \<le> 9223372036000000"
    and lo: "0 \<le> wall (t_wait_now env)"
    and hi: "wall (t_wait_now env) + interval self \<le> dt_max"
  shows "\<exists>st'. tick ext self env st = (None, st') \<and>
           run_loop ext self (env # envs) st = run_loop ext self envs st' \<and>
           (\<forall>r\<in>set (root_folders self).
              \<exists>p. is_candidate ext r (t_now env) (md5_hexdigest ext img) p \<and>
                  outcome_entry (t_fault env r) p \<in> set (new_entries st st') \<and>
                  (t_fault env r = None \<longrightarrow> (p, img) \<in> set (files st'))) \<and>
           (\<exists>d nxt. last (logged st') = LogSleeping d nxt)"
proof -
  define P where "P = write_to_file ext (t_fault env) img (root_folders self) (t_now env) st"
  define FB where "FB = fallback_loop ext (t_fault env) img (fallback_folders self) (t_now env)
                     (fallback_folders self) P"
  define W where "W = wait_until_next_capture self (t_wait_now env) (snd FB)"
  have T: "tick ext self env st = W"
    unfolding W_def FB_def P_def using cap by (rule tick_unfold)
  obtain nxt where nxt: "next_instant (t_wait_now env) (interval self) = Inr nxt"
    and del: "delay_until (t_wait_now env) nxt \<le> total_seconds (interval self)"
    using next_instant_bound [OF iv lo hi] by (elim exE conjE)
  have "total_seconds (interval self) \<le> TIMEOUT_MAX"
    using short by (simp add: total_seconds_def TIMEOUT_MAX_def)
  then have del': "delay_until (t_wait_now env) nxt \<le> TIMEOUT_MAX"
    using del by simp
  have W1: "fst W = None"
    and W2: "logged (snd W) = logged (snd FB) @ [LogSleeping (delay_until (t_wait_now env) nxt) nxt]"
    using wait_ok [OF nxt del', of "snd FB"] unfolding W_def by simp_all
  have Wf: "files (snd W) = files (snd FB)"
    unfolding W_def by (rule wait_files)
  have Weq: "W = (None, snd W)" using W1 by (cases W) simp
  have t: "tick ext self env st = (None, snd W)" using T Weq by simp
  have r: "run_loop ext self (env # envs) st = run_loop ext self envs (snd W)"
    using t by (rule run_loop_continues)
  obtain a where a: "logged (snd P) = logged st @ a"
    using write_to_file_logged [of ext "t_fault env" img "root_folders self" "t_now env" st]
    unfolding P_def by (elim exE)
  obtain b where b: "logged (snd FB) = logged (snd P) @ b"
    using fallback_loop_logged [of ext "t_fault env" img "fallback_folders self" "t_now env"
        "fallback_folders self" P]
    unfolding FB_def by (elim exE)
  have PW: "logged (snd W) = logged (snd P) @ (b @ [LogSleeping (delay_until (t_wait_now env) nxt) nxt])"
    using b W2 by simp
  have ne: "new_entries st (snd W) = new_entries st (snd P) @ new_entries (snd P) (snd W)"
    using a PW by (rule new_entries_trans)
  have fsub: "set (files (snd P)) \<subseteq> set (files (snd W))"
    unfolding Wf FB_def by (rule fallback_loop_files)
  have targets: "\<forall>r\<in>set (root_folders self).
              \<exists>p. is_candidate ext r (t_now env) (md5_hexdigest ext img) p \<and>
                  outcome_entry (t_fault env r) p \<in> set (new_entries st (snd W)) \<and>
                  (t_fault env r = None \<longrightarrow> (p, img) \<in> set (files (snd W)))"
  proof
    fix r assume "r \<in> set (root_folders self)"
    from write_to_file_attempt [OF this, of ext "t_now env" img "t_fault env" st]
    obtain p where p: "is_candidate ext r (t_now env) (md5_hexdigest ext img) p"
      "outcome_entry (t_fault env r) p \<in> set (new_entries st (snd P))"
      "t_fault env r = None \<longrightarrow> (p, img) \<in> set (files (snd P))"
      unfolding P_def by (elim exE conjE)
    have e: "outcome_entry (t_fault env r) p \<in> set (new_entries st (snd W))"
      unfolding ne using p(2) by simp
    have f: "t_fault env r = None \<longrightarrow> (p, img) \<in> set (files (snd W))"
      using p(3) fsub by blast
    show "\<exists>p. is_candidate ext r (t_now env) (md5_hexdigest ext img) p \<and>
                  outcome_entry (t_fault env r) p \<in> set (new_entries st (snd W)) \<and>
                  (t_fault env r = None \<longrightarrow> (p, img) \<in> set (files (snd W)))"
      using p(1) e f by (intro exI [of _ p] conjI)
  qed
  have sl: "\<exists>d nxt. last (logged (snd W)) = LogSleeping d nxt"
    unfolding W2 by simp
  show ?thesis
    using t r targets sl by (intro exI [of _ "snd W"] conjI)
qed

theorem write_failures_do_not_end_the_loop_witness:
  "t_capture (sample_env (Inr [97])
       (\<lambda>r. if r = ''/mnt/hdd/timelapse/'' then Some OpenFails else None)) = Inr [97] \<and>
   (0::int) < TIMELAPSE_INTERVAL \<and> TIMELAPSE_INTERVAL \<le> 9223372036000000 \<and>
   0 \<le> wall sample_noon \<and> wall sample_noon + TIMELAPSE_INTERVAL \<le> dt_max \<and>
   (\<exists>st'. tick sample_extern
            \<lparr>interval = TIMELAPSE_INTERVAL,
              root_folders = [''/mnt/usb/timelapse/'', ''/mnt/hdd/timelapse/''],
              fallback_folders = []\<rparr>
            (sample_env (Inr [97])
               (\<lambda>r. if r = ''/mnt/hdd/timelapse/'' then Some OpenFails else None))
            empty_state = (None, st') \<and>
          (\<exists>p. is_candidate sample_extern ''/mnt/hdd/timelapse/'' sample_noon
                 ''0cc175b9c0f1b6a831c399e269772661'' p \<and>
               LogError p \<in> set (logged st')) \<and>
          (\<exists>p. is_candidate sample_extern ''/mnt/usb/timelapse/'' sample_noon
                 ''0cc175b9c0f1b6a831c399e269772661'' p \<and>
               (p, [97]) \<in> set (files st')))"
proof -
  let ?env = "sample_env (Inr [97])
       (\<lambda>r. if r = ''/mnt/hdd/timelapse/'' then Some OpenFails else None)"
  let ?self = "\<lparr>interval = TIMELAPSE_INTERVAL,
              root_folders = [''/mnt/usb/timelapse/'', ''/mnt/hdd/timelapse/''],
              fallback_folders = []\<rparr>"
  have c: "t_capture ?env = Inr [97]" by (simp add: sample_env_def)
  have iv: "0 < interval ?self" by (simp add: TIMELAPSE_INTERVAL_def)
  have short: "interval ?self \<le> 9223372036000000" by (simp add: TIMELAPSE_INTERVAL_def)
  have lo: "0 \<le> wall (t_wait_now ?env)" by (simp add: sample_env_def sample_noon_def)
  have hi: "wall (t_wait_now ?env) + interval ?self \<le> dt_max"
    by (simp add: sample_env_def sample_noon_def TIMELAPSE_INTERVAL_def dt_max_def)
  obtain st' where st': "tick sample_extern ?self ?env empty_state = (None, st')"
    and all: "\<forall>r\<in>set (root_folders ?self).
              \<exists>p. is_candidate sample_extern r (t_now ?env) (md5_hexdigest sample_extern [97]) p \<and>
                  outcome_entry (t_fault ?env r) p \<in> set (new_entries empty_state st') \<and>
                  (t_fault ?env r = None \<longrightarrow> (p, [97]) \<in> set (files st'))"
    using write_failures_do_not_end_the_loop [OF c iv short lo hi, of sample_extern empty_state "[]"]
    by (elim exE conjE)
  have m: "md5_hexdigest sample_extern [97] = ''0cc175b9c0f1b6a831c399e269772661''"
    by (simp add: sample_extern_def)
  have n: "t_now ?env = sample_noon" by (simp add: sample_env_def)
  have "''/mnt/hdd/timelapse/'' \<in> set (root_folders ?self)" by simp
  from bspec [OF all this] obtain p1 where p1:
    "is_candidate sample_extern ''/mnt/hdd/timelapse/'' sample_noon
       ''0cc175b9c0f1b6a831c399e269772661'' p1"
    "outcome_entry (t_fault ?env ''/mnt/hdd/timelapse/'') p1 \<in> set (new_entries empty_state st')"
    unfolding m n by (elim exE conjE)
  have e1: "LogError p1 \<in> set (logged st')"
    using p1(2) by (simp add: sample_env_def outcome_entry_def new_entries_def empty_state_def)
  have "''/mnt/usb/timelapse/'' \<in> set (root_folders ?self)" by simp
  from bspec [OF all this] obtain p2 where p2:
    "is_candidate sample_extern ''/mnt/usb/timelapse/'' sample_noon
       ''0cc175b9c0f1b6a831c399e269772661'' p2"
    "t_fault ?env ''/mnt/usb/timelapse/'' = None \<longrightarrow> (p2, [97]) \<in> set (files st')"
    unfolding m n by (elim exE conjE)
  have f2: "(p2, [97]) \<in> set (files st')"
    using p2(2) by (simp add: sample_env_def)
  have hyps: "t_capture ?env = Inr [97] \<and>
   (0::int) < TIMELAPSE_INTERVAL \<and> TIMELAPSE_INTERVAL \<le> 9223372036000000 \<and>
   0 \<le> wall sample_noon \<and> wall sample_noon + TIMELAPSE_INTERVAL \<le> dt_max"
    using c iv short lo hi by (simp add: sample_env_def)
  have "\<exists>st'. tick sample_extern ?self ?env empty_state = (None, st') \<and>
          (\<exists>p. is_candidate sample_extern ''/mnt/hdd/timelapse/'' sample_noon
                 ''0cc175b9c0f1b6a831c399e269772661'' p \<and>
               LogError p \<in> set (logged st')) \<and>
          (\<exists>p. is_candidate sample_extern ''/mnt/usb/timelapse/'' sample_noon
                 ''0cc175b9c0f1b6a831c399e269772661'' p \<and>
               (p, [97]) \<in> set (files st'))"
    using st' p1(1) e1 p2(1) f2 by (intro exI [of _ st'] conjI exI [of _ p1] exI [of _ p2])
  then show ?thesis using hyps by simp
qed

text \<open>
  Claim C2, as stated, fails for the capture: \<open>camera.capture\<close> is not inside a \<open>try\<close>, so its
  exception leaves \<open>__run\<close> and ends the loop; the tick that would have followed never runs.
\<close>

theorem capture_failure_ends_the_loop_counterexample:
  "run_loop sample_extern
     \<lparr>interval = TIMELAPSE_INTERVAL, root_folders = TIMELAPSE_FOLDERS,
       fallback_folders = TIMELAPSE_FOLDERS_FALLBACK\<rparr>
     [sample_env (Inl PiCameraError) (\<lambda>r. None), sample_env (Inr [97]) (\<lambda>r. None)]
     empty_state
   = (Some PiCameraError, empty_state)"
  by (simp add: tick_def sample_env_def)

section \<open>Properties of the stream multiplexer\<close>

lemma sink_write_fst: "fst (sink_write f s b w) = write_raises f s"
  by (simp add: sink_write_def Let_def split: option.splits)

lemma sink_write_closed: "closed (snd (sink_write f s b w)) = closed w"
  by (simp add: sink_write_def Let_def split: option.splits)

lemma sink_write_received:
  "received (snd (sink_write f s b w))
     = (if write_raises f s = None then (received w)(s := received w s @ [b]) else received w)"
  by (simp add: sink_write_def Let_def split: option.splits)

lemma sink_write_calls: "calls (snd (sink_write f s b w)) = calls w @ [CallWrite s]"
  by (simp add: sink_write_def Let_def split: option.splits)

lemma sink_close_closed: "closed (snd (sink_close f s w)) = (closed w)(s := True)"
  by (auto simp: sink_close_def Let_def fun_upd_idem)

lemma sink_close_received: "received (snd (sink_close f s w)) = received w"
  by (simp add: sink_close_def Let_def)

lemma sink_close_calls: "calls (snd (sink_close f s w)) = calls w @ [CallClose s]"
  by (simp add: sink_close_def Let_def)

lemma sink_close_fst: "fst (sink_close f s w) = (if closed w s then None else close_raises f s)"
  by (simp add: sink_close_def Let_def)

lemma sink_flush_closed: "closed (snd (sink_flush f s w)) = closed w"
  by (simp add: sink_flush_def)

lemma sink_flush_calls: "calls (snd (sink_flush f s w)) = calls w @ [CallFlush s]"
  by (simp add: sink_flush_def)

lemma discard_and_close_strs: "fst (snd (discard_and_close f s tw)) = removeAll s (fst tw)"
  by (simp add: discard_and_close_def Let_def split: prod.splits option.splits)

lemma discard_and_close_world:
  "snd (snd (discard_and_close f s tw)) = snd (sink_close f s (snd tw))"
  by (simp add: discard_and_close_def Let_def split: prod.splits option.splits)

lemma discard_and_close_fst:
  "catchable (close_raises f s) \<Longrightarrow> fst (discard_and_close f s tw) = None"
  by (auto simp: discard_and_close_def Let_def catchable_def sink_close_def
      split: prod.splits option.splits if_splits)

lemma write_sink_ok:
  assumes "write_raises f s = None"
  shows "write_sink f b s tw = (None, fst tw, snd (sink_write f s b (snd tw)))"
  using assms by (simp add: write_sink_def sink_write_def Let_def)

lemma write_sink_fail:
  assumes "write_raises f s = Some e" and "is_Exception e"
  shows "write_sink f b s tw = discard_and_close f s (fst tw, snd (sink_write f s b (snd tw)))"
  using assms by (simp add: write_sink_def sink_write_def Let_def)

lemma write_sink_pass:
  assumes "write_raises f s = Some e" and "\<not> is_Exception e"
  shows "write_sink f b s tw = (Some e, fst tw, snd (sink_write f s b (snd tw)))"
  using assms by (simp add: write_sink_def sink_write_def Let_def)

lemma write_sink_cases:
  obtains (ok) "write_raises f s = None"
      "write_sink f b s tw = (None, fst tw, snd (sink_write f s b (snd tw)))"
    | (fail) e where "write_raises f s = Some e" "is_Exception e"
      "write_sink f b s tw = discard_and_close f s (fst tw, snd (sink_write f s b (snd tw)))"
    | (pass) e where "write_raises f s = Some e" "\<not> is_Exception e"
      "write_sink f b s tw = (Some e, fst tw, snd (sink_write f s b (snd tw)))"
proof (cases "write_raises f s")
  case None
  show ?thesis by (rule ok [OF None write_sink_ok [OF None]])
next
  case (Some e)
  show ?thesis
  proof (cases "is_Exception e")
    case True
    show ?thesis by (rule fail [OF Some True write_sink_fail [OF Some True]])
  next
    case False
    show ?thesis by (rule pass [OF Some False write_sink_pass [OF Some False]])
  qed
qed

lemma write_sink_strs:
  "fst (snd (write_sink f b s tw))
     = (if catchable (write_raises f s) \<and> write_raises f s \<noteq> None
        then removeAll s (fst tw) else fst tw)"
  by (cases rule: write_sink_cases [of f s b tw])
     (simp_all add: catchable_def discard_and_close_strs)

lemma write_sink_closed:
  "closed (snd (snd (write_sink f b s tw)))
     = (if catchable (write_raises f s) \<and> write_raises f s \<noteq> None
        then (closed (snd tw))(s := True) else closed (snd tw))"
  by (cases rule: write_sink_cases [of f s b tw])
     (simp_all add: catchable_def discard_and_close_world sink_close_closed sink_write_closed)

lemma write_sink_received:
  "received (snd (snd (write_sink f b s tw)))
     = (if write_raises f s = None then (received (snd tw))(s := received (snd tw) s @ [b])
        else received (snd tw))"
  by (cases rule: write_sink_cases [of f s b tw])
     (simp_all add: discard_and_close_world sink_close_received sink_write_received)

lemma write_sink_calls:
  "calls (snd (snd (write_sink f b s tw)))
     = calls (snd tw) @ CallWrite s #
         (if catchable (write_raises f s) \<and> write_raises f s \<noteq> None then [CallClose s] else [])"
  by (cases rule: write_sink_cases [of f s b tw])
     (simp_all add: catchable_def discard_and_close_world sink_close_calls sink_write_calls)

lemma write_sink_fst:
  assumes "catchable (write_raises f s)" and "catchable (close_raises f s)"
  shows "fst (write_sink f b s tw) = None"
  using assms
  by (cases rule: write_sink_cases [of f s b tw])
     (simp_all add: catchable_def discard_and_close_fst)

lemma tee_write_loop_Cons_ok:
  "fst (write_sink f b s tw) = None \<Longrightarrow>
   tee_write_loop f b (s # xs) tw = tee_write_loop f b xs (snd (write_sink f b s tw))"
  by (cases "write_sink f b s tw") auto


lemma tee_write_loop_fst:
  "\<forall>s\<in>set xs. catchable (write_raises f s) \<and> catchable (close_raises f s) \<Longrightarrow>
   fst (tee_write_loop f b xs tw) = None"
proof (induction xs arbitrary: tw)
  case Nil
  then show ?case by simp
next
  case (Cons s xs)
  have "fst (write_sink f b s tw) = None"
    using Cons.prems by (simp add: write_sink_fst)
  then have "tee_write_loop f b (s # xs) tw = tee_write_loop f b xs (snd (write_sink f b s tw))"
    by (rule tee_write_loop_Cons_ok)
  then show ?case using Cons by simp
qed

lemma tee_write_loop_strs:
  "\<forall>s\<in>set xs. catchable (write_raises f s) \<and> catchable (close_raises f s) \<Longrightarrow>
   fst (snd (tee_write_loop f b xs tw))
     = filter (\<lambda>s. \<not> (s \<in> set xs \<and> write_raises f s \<noteq> None)) (fst tw)"
proof (induction xs arbitrary: tw)
  case Nil
  then show ?case by simp
next
  case (Cons s xs)
  define tw1 where "tw1 = snd (write_sink f b s tw)"
  have "fst (write_sink f b s tw) = None"
    using Cons.prems by (simp add: write_sink_fst)
  then have eq: "tee_write_loop f b (s # xs) tw = tee_write_loop f b xs tw1"
    unfolding tw1_def by (rule tee_write_loop_Cons_ok)
  have IH: "fst (snd (tee_write_loop f b xs tw1))
     = filter (\<lambda>s. \<not> (s \<in> set xs \<and> write_raises f s \<noteq> None)) (fst tw1)"
    using Cons by simp
  have t1: "fst tw1 = (if write_raises f s \<noteq> None then removeAll s (fst tw) else fst tw)"
    unfolding tw1_def using Cons.prems by (simp add: write_sink_strs)
  show ?case
    unfolding eq IH t1
    by (auto simp: removeAll_filter_not_eq intro!: filter_cong)
qed

lemma tee_write_loop_closed:
  "\<forall>s\<in>set xs. catchable (write_raises f s) \<and> catchable (close_raises f s) \<Longrightarrow>
   closed (snd (snd (tee_write_loop f b xs tw))) x
     = (closed (snd tw) x \<or> (x \<in> set xs \<and> write_raises f x \<noteq> None))"
proof (induction xs arbitrary: tw)
  case Nil
  then show ?case by simp
next
  case (Cons s xs)
  define tw1 where "tw1 = snd (write_sink f b s tw)"
  have "fst (write_sink f b s tw) = None"
    using Cons.prems by (simp add: write_sink_fst)
  then have eq: "tee_write_loop f b (s # xs) tw = tee_write_loop f b xs tw1"
    unfolding tw1_def by (rule tee_write_loop_Cons_ok)
  have IH: "closed (snd (snd (tee_write_loop f b xs tw1))) x
     = (closed (snd tw1) x \<or> (x \<in> set xs \<and> write_raises f x \<noteq> None))"
    using Cons by simp
  have t1: "closed (snd tw1)
      = (if write_raises f s \<noteq> None then (closed (snd tw))(s := True) else closed (snd tw))"
    unfolding tw1_def using Cons.prems by (simp add: write_sink_closed)
  show ?case
    unfolding eq IH t1 by auto
qed

lemma tee_write_loop_received:
  "\<forall>s\<in>set xs. catchable (write_raises f s) \<and> catchable (close_raises f s) \<Longrightarrow>
   distinct xs \<Longrightarrow>
   received (snd (snd (tee_write_loop f b xs tw))) x
     = (if x \<in> set xs \<and> write_raises f x = None then received (snd tw) x @ [b]
        else received (snd tw) x)"
proof (induction xs arbitrary: tw)
  case Nil
  then show ?case by simp
next
  case (Cons s xs)
  define tw1 where "tw1 = snd (write_sink f b s tw)"
  have "fst (write_sink f b s tw) = None"
    using Cons.prems by (simp add: write_sink_fst)
  then have eq: "tee_write_loop f b (s # xs) tw = tee_write_loop f b xs tw1"
    unfolding tw1_def by (rule tee_write_loop_Cons_ok)
  have IH: "received (snd (snd (tee_write_loop f b xs tw1))) x
     = (if x \<in> set xs \<and> write_raises f x = None then received (snd tw1) x @ [b]
        else received (snd tw1) x)"
    using Cons by simp
  have t1: "received (snd tw1)
      = (if write_raises f s = None then (received (snd tw))(s := received (snd tw) s @ [b])
         else received (snd tw))"
    unfolding tw1_def by (rule write_sink_received)
  have "s \<notin> set xs" using Cons.prems by simp
  then show ?case
    unfolding eq IH t1 by auto
qed

lemma tee_write_loop_calls:
  "\<forall>s\<in>set xs. catchable (write_raises f s) \<and> catchable (close_raises f s) \<Longrightarrow>
   calls (snd (snd (tee_write_loop f b xs tw)))
     = calls (snd tw) @
       concat (map (\<lambda>s. CallWrite s # (if write_raises f s \<noteq> None then [CallClose s] else [])) xs)"
proof (induction xs arbitrary: tw)
  case Nil
  then show ?case by simp
next
  case (Cons s xs)
  define tw1 where "tw1 = snd (write_sink f b s tw)"
  have "fst (write_sink f b s tw) = None"
    using Cons.prems by (simp add: write_sink_fst)
  then have eq: "tee_write_loop f b (s # xs) tw = tee_write_loop f b xs tw1"
    unfolding tw1_def by (rule tee_write_loop_Cons_ok)
  have IH: "calls (snd (snd (tee_write_loop f b xs tw1)))
     = calls (snd tw1) @
       concat (map (\<lambda>s. CallWrite s # (if write_raises f s \<noteq> None then [CallClose s] else [])) xs)"
    using Cons by simp
  have t1: "calls (snd tw1)
      = calls (snd tw) @ CallWrite s # (if write_raises f s \<noteq> None then [CallClose s] else [])"
    unfolding tw1_def using Cons.prems by (simp add: write_sink_calls)
  show ?case
    unfolding eq IH t1 by simp
qed






























section \<open>Properties of a broadcast\<close>


text \<open>
  Claim C5. For every set of sinks and every chunk \<open>b\<close>, \<open>StreamTee.write(b)\<close> raises no
  exception to its caller when the sinks raise what socket streams raise, exceptions
  derived from \<open>Exception\<close>. A sink whose write fails is removed from the tee's set and
  closed; the write is called on every sink of the snapshot all the same, and every sink
  whose own write does not fail stays in the set and receives \<open>b\<close>.
\<close>

theorem StreamTee_write_best_effort:
  assumes "\<forall>s\<in>set strs. catchable (write_raises f s) \<and> catchable (close_raises f s)"
  shows "\<exists>strs' w'. StreamTee_write f b strs w = (None, strs', w') \<and>
           (\<forall>x\<in>set strs. write_raises f x \<noteq> None \<longrightarrow> x \<notin> set strs' \<and> closed w' x) \<and>
           (\<forall>y\<in>set strs. CallWrite y \<in> set (drop (length (calls w)) (calls w')) \<and>
              (write_raises f y = None \<longrightarrow>
                 y \<in> set strs' \<and> received w' y = received w y @ [b]))"
proof -
  define R where "R = StreamTee_write f b strs w"
  have H: "\<forall>s\<in>set (remdups strs). catchable (write_raises f s) \<and> catchable (close_raises f s)"
    using assms by simp
  have Rdef: "R = tee_write_loop f b (remdups strs) (strs, w)"
    by (simp add: R_def StreamTee_write_def)
  have r1: "fst R = None"
    unfolding Rdef using H by (rule tee_write_loop_fst)
  have r2: "fst (snd R) = filter (\<lambda>s. \<not> (s \<in> set strs \<and> write_raises f s \<noteq> None)) strs"
    unfolding Rdef using tee_write_loop_strs [OF H, of b "(strs, w)"] by simp
  have r3: "closed (snd (snd R)) x = (closed w x \<or> (x \<in> set strs \<and> write_raises f x \<noteq> None))" for x
    unfolding Rdef using tee_write_loop_closed [OF H, of b "(strs, w)" x] by simp
  have r4: "received (snd (snd R)) x
      = (if x \<in> set strs \<and> write_raises f x = None then received w x @ [b] else received w x)" for x
    unfolding Rdef using tee_write_loop_received [OF H, of b "(strs, w)" x] by simp
  have r5: "calls (snd (snd R)) = calls w @
       concat (map (\<lambda>s. CallWrite s # (if write_raises f s \<noteq> None then [CallClose s] else []))
                 (remdups strs))"
    unfolding Rdef using tee_write_loop_calls [OF H, of b "(strs, w)"] by simp
  have eq: "StreamTee_write f b strs w = (None, fst (snd R), snd (snd R))"
    using r1 unfolding R_def by (cases "StreamTee_write f b strs w") simp
  have a: "\<forall>x\<in>set strs. write_raises f x \<noteq> None \<longrightarrow> x \<notin> set (fst (snd R)) \<and> closed (snd (snd R)) x"
    by (simp add: r2 r3)
  have c: "\<forall>y\<in>set strs. CallWrite y \<in> set (drop (length (calls w)) (calls (snd (snd R)))) \<and>
              (write_raises f y = None \<longrightarrow>
                 y \<in> set (fst (snd R)) \<and> received (snd (snd R)) y = received w y @ [b])"
    by (auto simp: r2 r4 r5)
  show ?thesis
    using eq a c by (intro exI [of _ "fst (snd R)"] exI [of _ "snd (snd R)"] conjI)
qed

theorem StreamTee_write_best_effort_witness:
  "catchable (write_raises (broken_sink 2 OSError) 2) \<and>
   catchable (close_raises (broken_sink 2 OSError) 2) \<and>
   (\<exists>strs' w'. StreamTee_write (broken_sink 2 OSError) [97] [1, 2, 3] fresh_sinks = (None, strs', w') \<and>
      2 \<notin> set strs' \<and> closed w' 2 \<and>
      1 \<in> set strs' \<and> received w' 1 = [[97]] \<and>
      3 \<in> set strs' \<and> received w' 3 = [[97]])"
proof -
  have H: "\<forall>s\<in>set [1, 2, 3 :: nat]. catchable (write_raises (broken_sink 2 OSError) s) \<and>
             catchable (close_raises (broken_sink 2 OSError) s)"
    by (simp add: broken_sink_def no_faults_def catchable_def is_Exception_def)
  obtain strs' w' where r: "StreamTee_write (broken_sink 2 OSError) [97] [1, 2, 3] fresh_sinks
        = (None, strs', w')"
    and a: "\<forall>x\<in>set [1, 2, 3 :: nat]. write_raises (broken_sink 2 OSError) x \<noteq> None \<longrightarrow>
              x \<notin> set strs' \<and> closed w' x"
    and c: "\<forall>y\<in>set [1, 2, 3 :: nat].
              CallWrite y \<in> set (drop (length (calls fresh_sinks)) (calls w')) \<and>
              (write_raises (broken_sink 2 OSError) y = None \<longrightarrow>
                 y \<in> set strs' \<and> received w' y = received fresh_sinks y @ [[97]])"
    using StreamTee_write_best_effort [OF H, of "[97]" fresh_sinks] by (elim exE conjE)
  have x2: "2 \<notin> set strs' \<and> closed w' 2"
    using a by (simp add: broken_sink_def no_faults_def)
  have y1: "1 \<in> set strs' \<and> received w' 1 = [[97]]"
    using c by (simp add: broken_sink_def no_faults_def fresh_sinks_def)
  have y3: "3 \<in> set strs' \<and> received w' 3 = [[97]]"
    using c by (simp add: broken_sink_def no_faults_def fresh_sinks_def)
  have "\<exists>strs' w'. StreamTee_write (broken_sink 2 OSError) [97] [1, 2, 3] fresh_sinks = (None, strs', w') \<and>
      2 \<notin> set strs' \<and> closed w' 2 \<and>
      1 \<in> set strs' \<and> received w' 1 = [[97]] \<and>
      3 \<in> set strs' \<and> received w' 3 = [[97]]"
    using r x2 y1 y3 by (intro exI [of _ strs'] exI [of _ w']) simp
  then show ?thesis
    by (simp add: broken_sink_def no_faults_def catchable_def is_Exception_def)
qed




end
